theory Spec2Isabelle
  imports Main
begin

section \<open>Slot generation: \<^verbatim>\<open>app/api/generate-slots/route.ts\<close>\<close>

subsection \<open>Numbers, times and dates\<close>

text \<open>
  JavaScript's \<^verbatim>\<open>n.toString()\<close> on an integer, and \<^verbatim>\<open>s.padStart(2, '0')\<close>.
  Court offsets are whole minutes, so every number the generator formats is an integer.
\<close>

definition digitChar :: "nat \<Rightarrow> char" where
  "digitChar n = ''0123456789'' ! n"

fun natToString :: "nat \<Rightarrow> string" where
  "natToString n =
     (if n < 10 then [digitChar n] else natToString (n div 10) @ [digitChar (n mod 10)])"

declare natToString.simps [simp del]

definition toString :: "int \<Rightarrow> string" where
  "toString i = (if i < 0 then CHR ''-'' # natToString (nat (- i)) else natToString (nat i))"

definition padStart :: "nat \<Rightarrow> char \<Rightarrow> string \<Rightarrow> string" where
  "padStart n c s = replicate (n - length s) c @ s"

text \<open>
  JavaScript's \<^verbatim>\<open>a % b\<close> takes the sign of the dividend; \<^verbatim>\<open>Math.floor(a / b)\<close> on
  integers is HOL's \<open>div\<close> on \<open>int\<close>, which rounds down.
\<close>

definition jsRem :: "int \<Rightarrow> int \<Rightarrow> int" where
  "jsRem a b = (if a < 0 then - ((- a) mod \<bar>b\<bar>) else a mod \<bar>b\<bar>)"

text \<open>
  A \<^verbatim>\<open>Date\<close> is its time value, the milliseconds since 1970-01-01T00:00Z (a Thursday).
  The server's time zone gives the local offset in milliseconds twice, as the language
  defines \<^verbatim>\<open>LocalTZA\<close>: for an instant, and for a local time on its way back to an
  instant. \<^verbatim>\<open>new Date('YYYY-MM-DD')\<close> is midnight UTC of that day; \<^verbatim>\<open>getDay()\<close> is the
  weekday of the local time, 0 on Sunday and 6 on Saturday; \<^verbatim>\<open>toISOString()\<close> prints the
  UTC day; \<^verbatim>\<open>setDate(getDate() + 1)\<close> adds one day to the local time and converts back.
  A calendar day is its day number, the days since 1970-01-01, and the column
  \<^verbatim>\<open>slot_date\<close> keeps the day number in place of its ISO rendering.
\<close>

record timezone =
  offsetAtUTC :: "int \<Rightarrow> int"
  offsetAtLocal :: "int \<Rightarrow> int"

definition msPerDay :: int where
  "msPerDay = 86400000"

definition newDate :: "int \<Rightarrow> int" where
  "newDate day = day * msPerDay"

definition LocalTime :: "timezone \<Rightarrow> int \<Rightarrow> int" where
  "LocalTime tz t = t + offsetAtUTC tz t"

definition UTCTime :: "timezone \<Rightarrow> int \<Rightarrow> int" where
  "UTCTime tz local = local - offsetAtLocal tz local"

definition getDay :: "timezone \<Rightarrow> int \<Rightarrow> int" where
  "getDay tz t = (LocalTime tz t div msPerDay + 4) mod 7"

definition toISODate :: "int \<Rightarrow> int" where
  "toISODate t = t div msPerDay"

definition setDateNext :: "timezone \<Rightarrow> int \<Rightarrow> int" where
  "setDateNext tz t = UTCTime tz (LocalTime tz t + msPerDay)"

text \<open>
  Two time zones: UTC, and Europe/Tallinn (the zone the schema names) as it is in 2025,
  two hours ahead of UTC and three from 2025-03-30T01:00Z to 2025-10-26T01:00Z; a local
  time that is skipped or repeated at a change is read with the offset before the change.
\<close>

definition utc :: timezone where
  "utc = \<lparr> offsetAtUTC = (\<lambda>t. 0), offsetAtLocal = (\<lambda>local. 0) \<rparr>"

definition tallinn_2025 :: timezone where
  "tallinn_2025 =
     \<lparr> offsetAtUTC =
         (\<lambda>t. if 20177 * 86400000 + 3600000 \<le> t \<and> t < 20387 * 86400000 + 3600000
               then 3 * 3600000 else 2 * 3600000),
       offsetAtLocal =
         (\<lambda>local. if 20177 * 86400000 + 4 * 3600000 \<le> local
                      \<and> local < 20387 * 86400000 + 4 * 3600000
                   then 3 * 3600000 else 2 * 3600000) \<rparr>"

subsection \<open>The generated rows\<close>

record court_config =
  offset_minutes :: int

record slot_payload =
  court_name :: string
  slot_date :: int
  start_time :: string
  end_time :: string
  base_price_cents :: int

text \<open>Lines 85 to 103: the body of the hour loop after its \<^verbatim>\<open>break\<close> test.\<close>

definition formatTime :: "int \<Rightarrow> string" where
  "formatTime totalMinutes =
     padStart 2 (CHR ''0'') (toString (totalMinutes div 60)) @ '':'' @
     padStart 2 (CHR ''0'') (toString (jsRem totalMinutes 60)) @ '':00''"

definition slotAt :: "string \<Rightarrow> int \<Rightarrow> int \<Rightarrow> int \<Rightarrow> slot_payload" where
  "slotAt courtName currentDate price totalMinutes =
     (let startTime = formatTime totalMinutes;
          endTotalMinutes = totalMinutes + 90;
          endTime = formatTime endTotalMinutes
      in \<lparr> court_name = courtName, slot_date = currentDate, start_time = startTime,
           end_time = endTime, base_price_cents = price * 100 \<rparr>)"

text \<open>
  The loop \<^verbatim>\<open>for (let hour = 7; hour < 23; hour += 1.5)\<close>. The counter only takes
  multiples of one half, which doubles represent exactly; \<open>hour2\<close> is twice the counter,
  so that \<^verbatim>\<open>hour * 60\<close> is \<open>hour2 * 30\<close>, the loop starts at 14, runs while
  \<open>hour2 < 46\<close> and steps by 3.
\<close>

function hourLoop :: "string \<Rightarrow> int \<Rightarrow> int \<Rightarrow> int \<Rightarrow> int \<Rightarrow> slot_payload list" where
  "hourLoop courtName offset currentDate price hour2 =
     (if hour2 < 46 then
        (let totalMinutes = hour2 * 30 + offset;
             startHour = totalMinutes div 60
         in if startHour \<ge> 23 then []
            else slotAt courtName currentDate price totalMinutes
                 # hourLoop courtName offset currentDate price (hour2 + 3))
      else [])"
  by pat_completeness auto
termination
  by (relation "measure (\<lambda>(c, off, d, p, h). nat (46 - h))") auto

declare hourLoop.simps [simp del]

text \<open>
  The loop \<^verbatim>\<open>while (currentDate <= endDateObj)\<close> with its flat weekend/weekday price,
  pushing each date's rows onto \<^verbatim>\<open>slots\<close>. Nothing in the loop itself bounds the number
  of rounds: whether it ends depends on the time zone, so a run that never ends is the
  value \<open>None\<close>.
\<close>

partial_function (option) dateLoop ::
  "timezone \<Rightarrow> string \<Rightarrow> int \<Rightarrow> int \<Rightarrow> int \<Rightarrow> slot_payload list \<Rightarrow> slot_payload list option"
where
  "dateLoop tz courtName offset currentDate endDateObj slots =
     (if currentDate \<le> endDateObj then
        dateLoop tz courtName offset (setDateNext tz currentDate) endDateObj
          (slots @ hourLoop courtName offset (toISODate currentDate)
                     (if getDay tz currentDate = 0 \<or> getDay tz currentDate = 6 then 65 else 40)
                     14)
      else Some slots)"

declare dateLoop.simps [code]

definition generateSlotsForCourt ::
  "timezone \<Rightarrow> string \<Rightarrow> court_config \<Rightarrow> int \<Rightarrow> int \<Rightarrow> slot_payload list option" where
  "generateSlotsForCourt tz courtName config startDate endDate =
     dateLoop tz courtName (offset_minutes config) (newDate startDate) (newDate endDate) []"

text \<open>
  How the storage reads the rows back. A \<^verbatim>\<open>TIME\<close> literal \<^verbatim>\<open>HH:MM:SS\<close> is a number of
  minutes after midnight; a slot occupies the half-open interval from \<open>startsAt\<close> to
  \<open>endsAt\<close> on the line of minutes since day 0, and two slots of one court overlap
  when their intervals meet.
\<close>

definition digitVal :: "char \<Rightarrow> int" where
  "digitVal c = int (of_char c) - 48"

fun timeMinutes :: "string \<Rightarrow> int" where
  "timeMinutes (h1 # h2 # c # m1 # m2 # rest) =
     (digitVal h1 * 10 + digitVal h2) * 60 + digitVal m1 * 10 + digitVal m2"
| "timeMinutes _ = 0"

definition startsAt :: "'a slot_payload_scheme \<Rightarrow> int" where
  "startsAt r = slot_date r * 1440 + timeMinutes (start_time r)"

definition endsAt :: "'a slot_payload_scheme \<Rightarrow> int" where
  "endsAt r = slot_date r * 1440 + timeMinutes (end_time r)"

definition overlaps :: "'a slot_payload_scheme \<Rightarrow> 'a slot_payload_scheme \<Rightarrow> bool" where
  "overlaps a b \<longleftrightarrow>
     court_name a = court_name b \<and> startsAt a < endsAt b \<and> startsAt b < endsAt a"

text \<open>
  Closed forms, proved below to be what the loops compute. The starting minutes of one
  day's slots are the grid of eleven ticks 7:00, 8:30, ..., 22:00 shifted by the court's
  offset, cut at the first tick that starts at or after 23:00. The rows pushed in one
  round of the date loop are one per tick, dated by the UTC day and priced by the local
  weekday of the round's instant. The instants of the first \<open>n\<close> rounds are a walk along
  \<open>setDateNext\<close>. A time zone advances when that step always moves forward, as it does
  for every zone whose offsets differ by less than a day.
\<close>

definition dayTicks :: "int \<Rightarrow> int list" where
  "dayTicks offset =
     takeWhile (\<lambda>t. t < 23 * 60) (map (\<lambda>k. 7 * 60 + offset + 90 * int k) [0..<11])"

definition dayRows :: "timezone \<Rightarrow> string \<Rightarrow> int \<Rightarrow> int \<Rightarrow> slot_payload list" where
  "dayRows tz courtName offset t =
     map (slotAt courtName (toISODate t)
            (if getDay tz t = 0 \<or> getDay tz t = 6 then 65 else 40))
       (dayTicks offset)"

primrec walk :: "nat \<Rightarrow> timezone \<Rightarrow> int \<Rightarrow> int list" where
  "walk 0 tz t = []"
| "walk (Suc n) tz t = t # walk n tz (setDateNext tz t)"

definition advances :: "timezone \<Rightarrow> bool" where
  "advances tz \<longleftrightarrow> (\<forall>t. t < setDateNext tz t)"

section \<open>The stored state and the outside world\<close>

datatype booking_status = Pending | Confirmed | Cancelled | Completed | No_show

text \<open>
  A row of \<^verbatim>\<open>available_slots\<close>: the generated columns, the primary key, the availability
  flag (\<^verbatim>\<open>DEFAULT TRUE\<close>) and \<^verbatim>\<open>current_price_cents\<close> (\<^verbatim>\<open>DEFAULT base_price_cents\<close>).
\<close>

record slot_row = slot_payload +
  id_slot :: nat
  is_available :: bool
  current_price_cents :: int

record booking_row =
  id_booking :: nat
  slot_id :: nat
  customer_name :: string
  customer_email :: string
  customer_phone :: string
  stripe_payment_intent_id :: string
  amount_paid_cents :: int
  status :: booking_status

text \<open>What the handlers send to the payment gateway, and what it answers.\<close>

record checkout_params =
  unit_amount :: int
  metadata_slot_id :: nat
  metadata_customer_email :: string
  metadata_customer_name :: string
  metadata_customer_phone :: string

record checkout_session =
  session_id :: string
  session_url :: string

record intent_params =
  amount :: int
  intent_slot_id :: nat
  intent_customer_email :: string

record payment_intent =
  intent_id :: string
  client_secret :: string

datatype stripe_request = CheckoutRequest checkout_params | IntentRequest intent_params

text \<open>
  The world the handlers act on: the rule \<^verbatim>\<open>('court_config', 'courts')\<close> as the entries of
  its JSON object (\<open>None\<close> when the rule is missing), the two tables in row order, the
  source of fresh primary keys, and the requests the payment gateway has received,
  oldest first.
\<close>

record world =
  courts_rule :: "(string \<times> court_config) list option"
  available_slots :: "slot_row list"
  bookings :: "booking_row list"
  next_id :: nat
  stripe_log :: "stripe_request list"

text \<open>
  What the outside is during one request: the time zone of the server's clock, and the
  answers to its calls. The gateway either returns an object or
  throws (\<open>Inl\<close> the message). A storage call either goes through or returns an
  \<^verbatim>\<open>error\<close> object (\<open>Some\<close> its message); the client library never throws.
\<close>

datatype db_call =
    SelectCourts | UpsertSlots | SelectSlot | InsertBooking | UpdateSlot
  | UpdateBooking | SelectBooking | DeleteBooking

datatype stripe_event =
    CheckoutSessionCompleted string
  | CheckoutSessionExpired string
  | OtherEvent string

record environment =
  server_tz :: timezone
  checkout_sessions_create :: "checkout_params \<Rightarrow> string + checkout_session"
  paymentIntents_create :: "intent_params \<Rightarrow> string + payment_intent"
  endpointSecret :: "string option"
  constructEvent :: "string \<Rightarrow> string \<Rightarrow> string \<Rightarrow> string + stripe_event"
  db_fails :: "db_call \<Rightarrow> string option"

datatype body =
    ErrorBody string
  | TextBody string
  | SlotsCreated nat
  | BookingCreated nat string string
  | IntentCreated nat string
  | Received

datatype response = Response nat body

text \<open>\<^verbatim>\<open>.single()\<close>: the row when exactly one matches, an error otherwise.\<close>

definition single :: "'a list \<Rightarrow> 'a option" where
  "single rows = (case rows of [r] \<Rightarrow> Some r | _ \<Rightarrow> None)"

section \<open>The generation request: \<^verbatim>\<open>POST\<close> of \<^verbatim>\<open>generate-slots/route.ts\<close>\<close>

text \<open>
  \<^verbatim>\<open>.upsert(slots, { onConflict: 'court_name,slot_date,start_time' })\<close> is one
  \<^verbatim>\<open>INSERT ... ON CONFLICT (court_name, slot_date, start_time) DO UPDATE\<close> that sets the
  columns of the payload: a payload row whose key is stored overwrites that row's
  \<^verbatim>\<open>end_time\<close> and \<^verbatim>\<open>base_price_cents\<close>, any other is inserted with a fresh key and the
  column defaults. The statement is refused as a whole when two payload rows share a key.
\<close>

definition keyOf :: "'a slot_payload_scheme \<Rightarrow> string \<times> int \<times> string" where
  "keyOf r = (court_name r, slot_date r, start_time r)"

definition upsertRow :: "slot_row list \<times> nat \<Rightarrow> slot_payload \<Rightarrow> slot_row list \<times> nat" where
  "upsertRow tbl p =
     (let (rows, fresh) = tbl in
      if keyOf p \<in> set (map keyOf rows)
      then (map (\<lambda>r. if keyOf r = keyOf p
                       then r\<lparr>end_time := end_time p, base_price_cents := base_price_cents p\<rparr>
                       else r) rows, fresh)
      else (rows @ [slot_payload.extend p
                      \<lparr> id_slot = fresh, is_available = True,
                        current_price_cents = base_price_cents p \<rparr>], fresh + 1))"

definition upsert :: "environment \<Rightarrow> slot_payload list \<Rightarrow> world \<Rightarrow> string + world" where
  "upsert env slots w =
     (case db_fails env UpsertSlots of
        Some message \<Rightarrow> Inl message
      | None \<Rightarrow>
          if \<not> distinct (map keyOf slots)
          then Inl ''ON CONFLICT DO UPDATE command cannot affect row a second time''
          else (let (rows, fresh) = foldl upsertRow (available_slots w, next_id w) slots
                in Inr (w\<lparr>available_slots := rows, next_id := fresh\<rparr>)))"

text \<open>
  The loop over \<^verbatim>\<open>Object.entries(courts)\<close>, lines 33 to 41; it returns when every court's
  generation does.
\<close>

fun courtLoop ::
  "timezone \<Rightarrow> (string \<times> court_config) list \<Rightarrow> int \<Rightarrow> int \<Rightarrow> slot_payload list option" where
  "courtLoop tz [] startDate endDate = Some []"
| "courtLoop tz ((courtName, config) # courts) startDate endDate =
     (case generateSlotsForCourt tz courtName config startDate endDate of
        None \<Rightarrow> None
      | Some courtSlots \<Rightarrow>
          (case courtLoop tz courts startDate endDate of
             None \<Rightarrow> None
           | Some slots \<Rightarrow> Some (courtSlots @ slots)))"

text \<open>
  The request. A refused upsert is thrown as the storage's plain error object, which is
  not an \<^verbatim>\<open>Error\<close>, so the handler answers 500 with \<^verbatim>\<open>'An error occurred'\<close> (line 57).
\<close>

definition generate_POST ::
  "environment \<Rightarrow> int \<Rightarrow> int \<Rightarrow> world \<Rightarrow> (response \<times> world) option" where
  "generate_POST env startDate endDate w =
     (let courts = (case db_fails env SelectCourts of
                      Some _ \<Rightarrow> []
                    | None \<Rightarrow> (case courts_rule w of None \<Rightarrow> [] | Some cs \<Rightarrow> cs))
      in case courtLoop (server_tz env) courts startDate endDate of
           None \<Rightarrow> None
         | Some slots \<Rightarrow>
             Some (case upsert env slots w of
                     Inl message \<Rightarrow> (Response 500 (ErrorBody ''An error occurred''), w)
                   | Inr w' \<Rightarrow> (Response 200 (SlotsCreated (length slots)), w')))"

text \<open>
  Notions for generating a range again. A slot ends 90 minutes after it starts, as the
  generator writes it; every court offset is at least 0 and less than the slot length;
  a stored row is carried over with its price refreshed when the new row differs from
  it in \<^verbatim>\<open>base_price_cents\<close> at most.
\<close>

definition endsAfter90 :: "'a slot_payload_scheme \<Rightarrow> bool" where
  "endsAfter90 r \<longleftrightarrow> end_time r = formatTime (timeMinutes (start_time r) + 90)"

definition offsets_in_range :: "world \<Rightarrow> bool" where
  "offsets_in_range w \<longleftrightarrow>
     (case courts_rule w of
        None \<Rightarrow> True
      | Some courts \<Rightarrow>
          list_all (\<lambda>(courtName, config). 0 \<le> offset_minutes config \<and> offset_minutes config < 90)
            courts)"

definition price_refreshed :: "slot_row \<Rightarrow> slot_row \<Rightarrow> bool" where
  "price_refreshed old new \<longleftrightarrow> new = old\<lparr>base_price_cents := base_price_cents new\<rparr>"

text \<open>A payload row is stored when some row has its key, its end time and its price.\<close>

definition stored_with :: "slot_payload \<Rightarrow> slot_row list \<Rightarrow> bool" where
  "stored_with p rows \<longleftrightarrow>
     list_ex (\<lambda>r. keyOf r = keyOf p \<and> end_time r = end_time p
                 \<and> base_price_cents r = base_price_cents p) rows"

section \<open>Reservation: the \<^verbatim>\<open>create-booking\<close> function\<close>

record booking_request =
  slotId :: nat
  customerName :: string
  customerEmail :: string
  customerPhone :: string

text \<open>
  The storage calls of the two reservation handlers. The slot read asks for the row with
  the given key that is marked available, and \<^verbatim>\<open>.single()\<close> (line 32); the booking row
  is the one inserted with status \<^verbatim>\<open>pending\<close> (line 78); the slot update sets
  \<^verbatim>\<open>is_available\<close> on every row with the given key (line 97) and its result is not
  looked at, so a refused update leaves the table as it was and goes unnoticed.
\<close>

definition select_slot :: "environment \<Rightarrow> nat \<Rightarrow> world \<Rightarrow> slot_row option" where
  "select_slot env sid w =
     (case db_fails env SelectSlot of
        Some _ \<Rightarrow> None
      | None \<Rightarrow> single (filter (\<lambda>r. id_slot r = sid \<and> is_available r) (available_slots w)))"

definition pending_booking ::
  "nat \<Rightarrow> booking_request \<Rightarrow> slot_row \<Rightarrow> string \<Rightarrow> booking_row" where
  "pending_booking fresh req slot payment =
     \<lparr> id_booking = fresh,
       slot_id = slotId req,
       customer_name = customerName req,
       customer_email = customerEmail req,
       customer_phone = customerPhone req,
       stripe_payment_intent_id = payment,
       amount_paid_cents = base_price_cents slot,
       status = Pending \<rparr>"

definition insert_row :: "booking_row \<Rightarrow> world \<Rightarrow> world" where
  "insert_row booking w = w\<lparr>bookings := bookings w @ [booking], next_id := next_id w + 1\<rparr>"

definition update_is_available :: "environment \<Rightarrow> nat \<Rightarrow> bool \<Rightarrow> world \<Rightarrow> world" where
  "update_is_available env sid v w =
     (case db_fails env UpdateSlot of
        Some _ \<Rightarrow> w
      | None \<Rightarrow>
          w\<lparr>available_slots :=
               map (\<lambda>r. if id_slot r = sid then r\<lparr>is_available := v\<rparr> else r)
                 (available_slots w)\<rparr>)"

text \<open>The checkout session asked of the gateway, lines 50 to 75.\<close>

definition session_params :: "slot_row \<Rightarrow> booking_request \<Rightarrow> checkout_params" where
  "session_params slot req =
     \<lparr> unit_amount = base_price_cents slot,
       metadata_slot_id = slotId req,
       metadata_customer_email = customerEmail req,
       metadata_customer_name = customerName req,
       metadata_customer_phone = customerPhone req \<rparr>"

text \<open>
  The handler awaits four outside calls in turn: the slot read, the checkout session,
  the booking insert and the slot update. Other requests can act on the storage between
  any two of them, so the handler is a machine that makes one call per step; its control
  state holds the local variables in scope.
\<close>

datatype cb_state =
    AtSelect
  | AtStripe slot_row
  | AtInsert slot_row checkout_session
  | AtUpdate slot_row checkout_session booking_row
  | Returned response

fun step :: "environment \<Rightarrow> booking_request \<Rightarrow> cb_state \<times> world \<Rightarrow> cb_state \<times> world" where
  "step env req (AtSelect, w) =
     (case select_slot env (slotId req) w of
        None \<Rightarrow> (Returned (Response 400 (ErrorBody ''Slot not available'')), w)
      | Some slot \<Rightarrow> (AtStripe slot, w))"
| "step env req (AtStripe slot, w) =
     (let w1 = w\<lparr>stripe_log := stripe_log w @ [CheckoutRequest (session_params slot req)]\<rparr>
      in case checkout_sessions_create env (session_params slot req) of
           Inl message \<Rightarrow> (Returned (Response 500 (ErrorBody message)), w1)
         | Inr session \<Rightarrow> (AtInsert slot session, w1))"
| "step env req (AtInsert slot session, w) =
     (case db_fails env InsertBooking of
        Some message \<Rightarrow> (Returned (Response 500 (ErrorBody message)), w)
      | None \<Rightarrow>
          (let booking = pending_booking (next_id w) req slot (session_id session)
           in (AtUpdate slot session booking, insert_row booking w)))"
| "step env req (AtUpdate slot session booking, w) =
     (Returned (Response 200
        (BookingCreated (id_booking booking) (session_url session) (session_id session))),
      update_is_available env (slotId req) False w)"
| "step env req (Returned r, w) = (Returned r, w)"

text \<open>One request served alone: its four steps in a row, and the configurations passed.\<close>

definition create_booking ::
  "environment \<Rightarrow> booking_request \<Rightarrow> world \<Rightarrow> cb_state \<times> world" where
  "create_booking env req w =
     step env req (step env req (step env req (step env req (AtSelect, w))))"




definition markedAvailable :: "world \<Rightarrow> nat \<Rightarrow> bool" where
  "markedAvailable w sid = list_ex (\<lambda>r. id_slot r = sid \<and> is_available r) (available_slots w)"

fun succeeded :: "cb_state \<Rightarrow> bool" where
  "succeeded (Returned (Response code (BookingCreated b u s))) = (code = 200)"
| "succeeded _ = False"

text \<open>Requests served one after another, each to its end before the next begins.\<close>

fun serve_all :: "(environment \<times> booking_request) list \<Rightarrow> world \<Rightarrow> cb_state list \<times> world" where
  "serve_all [] w = ([], w)"
| "serve_all ((env, req) # calls) w =
     (let (r, w1) = create_booking env req w;
          (rs, w2) = serve_all calls w1
      in (r # rs, w2))"

text \<open>
  Requests in flight together: a schedule names, step by step, the request that makes
  its next call.
\<close>

fun interleave ::
  "nat list \<Rightarrow> (environment \<times> booking_request \<times> cb_state) list \<times> world \<Rightarrow>
     (environment \<times> booking_request \<times> cb_state) list \<times> world" where
  "interleave [] cw = cw"
| "interleave (i # schedule) (calls, w) =
     (if i < length calls then
        (let (env, req, pc) = calls ! i;
             (pc', w') = step env req (pc, w)
         in interleave schedule (calls[i := (env, req, pc')], w'))
      else interleave schedule (calls, w))"

section \<open>Reservation: the \<^verbatim>\<open>POST\<close> route that creates a payment intent\<close>

text \<open>
  The same calls in the same order. The route answers a thrown \<^verbatim>\<open>Error\<close> with its
  message and anything else thrown with \<^verbatim>\<open>'An error occurred'\<close>: the gateway throws
  \<^verbatim>\<open>Error\<close>s, a refused insert is thrown as the storage's plain error object.
\<close>

definition book_slot_POST :: "environment \<Rightarrow> booking_request \<Rightarrow> world \<Rightarrow> response \<times> world" where
  "book_slot_POST env req w =
     (case select_slot env (slotId req) w of
        None \<Rightarrow> (Response 400 (ErrorBody ''Slot not available''), w)
      | Some slot \<Rightarrow>
          (let params = \<lparr> amount = base_price_cents slot,
                           intent_slot_id = slotId req,
                           intent_customer_email = customerEmail req \<rparr>;
               w1 = w\<lparr>stripe_log := stripe_log w @ [IntentRequest params]\<rparr>
           in case paymentIntents_create env params of
                Inl message \<Rightarrow> (Response 500 (ErrorBody message), w1)
              | Inr paymentIntent \<Rightarrow>
                  (case db_fails env InsertBooking of
                     Some message \<Rightarrow> (Response 500 (ErrorBody ''An error occurred''), w1)
                   | None \<Rightarrow>
                       (let booking = pending_booking (next_id w1) req slot (intent_id paymentIntent)
                        in (Response 200
                              (IntentCreated (id_booking booking) (client_secret paymentIntent)),
                            update_is_available env (slotId req) False (insert_row booking w1))))))"

section \<open>Payment notifications: the \<^verbatim>\<open>stripe-webhook\<close> function\<close>

record webhook_request =
  stripe_signature :: "string option"
  raw_body :: string

text \<open>The \<^verbatim>\<open>switch\<close> on the event type, lines 45 to 93.\<close>

fun handle_event :: "environment \<Rightarrow> stripe_event \<Rightarrow> world \<Rightarrow> world" where
  "handle_event env (CheckoutSessionCompleted session) w =
     (case db_fails env UpdateBooking of
        Some _ \<Rightarrow> w
      | None \<Rightarrow>
          w\<lparr>bookings :=
               map (\<lambda>b. if stripe_payment_intent_id b = session then b\<lparr>status := Confirmed\<rparr> else b)
                 (bookings w)\<rparr>)"
| "handle_event env (CheckoutSessionExpired expiredSession) w =
     (case (case db_fails env SelectBooking of
              Some _ \<Rightarrow> None
            | None \<Rightarrow> single (filter (\<lambda>b. stripe_payment_intent_id b = expiredSession)
                                (bookings w))) of
        None \<Rightarrow> w
      | Some expiredBooking \<Rightarrow>
          (let w1 = (case db_fails env DeleteBooking of
                       Some _ \<Rightarrow> w
                     | None \<Rightarrow>
                         w\<lparr>bookings :=
                              filter (\<lambda>b. stripe_payment_intent_id b \<noteq> expiredSession)
                                (bookings w)\<rparr>)
           in update_is_available env (slot_id expiredBooking) True w1))"
| "handle_event env (OtherEvent type) w = w"

definition webhook :: "environment \<Rightarrow> webhook_request \<Rightarrow> world \<Rightarrow> response \<times> world" where
  "webhook env req w =
     (case (stripe_signature req, endpointSecret env) of
        (Some signature, Some secret) \<Rightarrow>
          if signature = [] \<or> secret = []
          then (Response 400 (TextBody ''Webhook signature missing''), w)
          else (case constructEvent env (raw_body req) signature secret of
                  Inl err \<Rightarrow> (Response 400 (TextBody ''Webhook signature verification failed''), w)
                | Inr event \<Rightarrow> (Response 200 Received, handle_event env event w))
      | _ \<Rightarrow> (Response 400 (TextBody ''Webhook signature missing''), w))"

text \<open>
  A notification is delivered as \<open>event\<close> when the request carries a signature, the
  secret is configured and the gateway's library accepts the body as that event.
\<close>

definition delivers :: "environment \<Rightarrow> webhook_request \<Rightarrow> stripe_event \<Rightarrow> bool" where
  "delivers env req event =
     (case (stripe_signature req, endpointSecret env) of
        (Some signature, Some secret) \<Rightarrow>
          signature \<noteq> [] \<and> secret \<noteq> [] \<and>
          constructEvent env (raw_body req) signature secret = Inr event
      | _ \<Rightarrow> False)"

section \<open>A small world to run the handlers on\<close>

text \<open>
  One court, one slot on Wednesday 2025-01-01 with a current price above its base price,
  a server on Tallinn time, a gateway that answers every request with the session or
  intent named, and a storage that refuses the calls listed.
\<close>

definition demo_slot :: "bool \<Rightarrow> slot_row" where
  "demo_slot free =
     \<lparr> court_name = ''Court A'', slot_date = 20089, start_time = ''07:00:00'',
       end_time = ''08:30:00'', base_price_cents = 4000, id_slot = 1,
       is_available = free, current_price_cents = 5000 \<rparr>"

definition demo_world :: world where
  "demo_world =
     \<lparr> courts_rule = Some [(''Court A'', \<lparr>offset_minutes = 0\<rparr>)],
       available_slots = [demo_slot True], bookings = [], next_id = 2, stripe_log = [] \<rparr>"

definition demo_env :: "string \<Rightarrow> db_call list \<Rightarrow> environment" where
  "demo_env payment refused =
     \<lparr> server_tz = tallinn_2025,
       checkout_sessions_create =
         (\<lambda>p. Inr \<lparr>session_id = payment, session_url = ''https://checkout/'' @ payment\<rparr>),
       paymentIntents_create =
         (\<lambda>p. Inr \<lparr>intent_id = payment, client_secret = payment @ ''_secret''\<rparr>),
       endpointSecret = Some ''whsec'',
       constructEvent =
         (\<lambda>body signature secret.
            if signature = ''valid'' then
              (if take 8 body = ''expired:'' then Inr (CheckoutSessionExpired (drop 8 body))
               else Inr (CheckoutSessionCompleted body))
            else Inl ''No signatures found matching the expected signature''),
       db_fails = (\<lambda>c. if c \<in> set refused then Some ''connection refused'' else None) \<rparr>"

definition demo_request :: "string \<Rightarrow> booking_request" where
  "demo_request name =
     \<lparr> slotId = 1, customerName = name, customerEmail = name @ ''@example.com'',
       customerPhone = ''5550100'' \<rparr>"

definition demo_booking :: "booking_status \<Rightarrow> booking_row" where
  "demo_booking st =
     \<lparr> id_booking = 2, slot_id = 1, customer_name = ''Ann'',
       customer_email = ''Ann@example.com'', customer_phone = ''5550100'',
       stripe_payment_intent_id = ''cs_1'', amount_paid_cents = 4000, status = st \<rparr>"

section \<open>Properties of slot generation\<close>

subsection \<open>Times survive formatting\<close>

lemma digitVal_digitChar: "k < 10 \<Longrightarrow> digitVal (digitChar k) = int k"
proof -
  assume "k < 10"
  then have "k \<in> {0,1,2,3,4,5,6,7,8,9}" by auto
  then show ?thesis by (auto simp: digitVal_def digitChar_def)
qed

lemma natToString_small: "n < 10 \<Longrightarrow> natToString n = [digitChar n]"
  by (simp add: natToString.simps)

lemma natToString_two:
  "10 \<le> n \<Longrightarrow> n < 100 \<Longrightarrow> natToString n = [digitChar (n div 10), digitChar (n mod 10)]"
  by (subst natToString.simps) (simp add: natToString_small)

lemma pad2: "0 \<le> i \<Longrightarrow> i < 100 \<Longrightarrow>
  padStart 2 (CHR ''0'') (toString i) = [digitChar (nat i div 10), digitChar (nat i mod 10)]"
proof -
  assume a: "0 \<le> i" "i < 100"
  show ?thesis
  proof (cases "i < 10")
    case True
    with a show ?thesis
      by (simp add: padStart_def toString_def natToString_small digitChar_def)
  next
    case False
    with a show ?thesis
      by (simp add: padStart_def toString_def natToString_two)
  qed
qed

lemma two_digits: "0 \<le> a \<Longrightarrow> int (nat a div 10) * 10 + int (nat a mod 10) = a"
proof -
  assume "0 \<le> a"
  then obtain n where a: "a = int n" by (rule nonneg_int_cases)
  have "int n = int (n div 10 * 10 + n mod 10)" by (simp only: div_mult_mod_eq)
  also have "\<dots> = int (n div 10) * 10 + int (n mod 10)"
    by (simp only: of_nat_add of_nat_mult of_nat_numeral)
  finally have "int (n div 10) * 10 + int (n mod 10) = int n" by (rule sym)
  then show ?thesis unfolding a nat_int .
qed

lemma timeMinutes_formatTime:
  assumes "0 \<le> t" "t < 6000"
  shows "timeMinutes (formatTime t) = t"
proof -
  have h: "0 \<le> t div 60" "t div 60 < 100" using assms by auto
  have m: "0 \<le> t mod 60" "t mod 60 < 100" using assms by auto
  have j: "jsRem t 60 = t mod 60" using assms by (simp add: jsRem_def)
  have d1: "nat (t div 60) div 10 < 10" "nat (t div 60) mod 10 < 10" using h by auto
  have d2: "nat (t mod 60) div 10 < 10" "nat (t mod 60) mod 10 < 10" using m by auto
  have "timeMinutes (formatTime t) =
     (int (nat (t div 60) div 10) * 10 + int (nat (t div 60) mod 10)) * 60
      + (int (nat (t mod 60) div 10) * 10 + int (nat (t mod 60) mod 10))"
    by (simp add: formatTime_def j pad2[OF h] pad2[OF m] digitVal_digitChar d1 d2)
  also have "\<dots> = t div 60 * 60 + t mod 60"
    by (simp only: two_digits[OF h(1)] two_digits[OF m(1)])
  also have "\<dots> = t" by (simp only: div_mult_mod_eq)
  finally show ?thesis .
qed

subsection \<open>The loops in closed form\<close>

lemma upt11: "[0..<11] = [0,1,2,3,4,5,6,7,8,9,10]"
  by (simp add: upt_rec)



lemma hourLoop_step:
  "h < 46 \<Longrightarrow> hourLoop c off d p h =
     (if h * 30 + off < 1380 then slotAt c d p (h * 30 + off) # hourLoop c off d p (h + 3) else [])"
  by (subst hourLoop.simps) (auto simp: Let_def)

lemma hourLoop_stop: "46 \<le> h \<Longrightarrow> hourLoop c off d p h = []"
  by (subst hourLoop.simps) simp

lemma hourLoop_14:
  "hourLoop c off d p 14 = map (slotAt c d p) (dayTicks off)"
  by (simp add: hourLoop_step hourLoop_stop dayTicks_def upt11 cong: if_cong)

lemma dayTicks_0: "dayTicks 0 = [420, 510, 600, 690, 780, 870, 960, 1050, 1140, 1230, 1320]"
  by (simp add: dayTicks_def upt11)

lemma dayTicks_30: "dayTicks 30 = [450, 540, 630, 720, 810, 900, 990, 1080, 1170, 1260, 1350]"
  by (simp add: dayTicks_def upt11)


subsection \<open>Slots of one court follow one another\<close>

lemma dayTicks_bounds: "t \<in> set (dayTicks off) \<Longrightarrow> 420 + off \<le> t \<and> t < 1380"
proof -
  assume a: "t \<in> set (dayTicks off)"
  then have "t < 1380" unfolding dayTicks_def by (auto dest: set_takeWhileD)
  moreover have "t \<in> set (map (\<lambda>k. 7 * 60 + off + 90 * int k) [0..<11])"
    using a unfolding dayTicks_def by (auto dest: set_takeWhileD)
  then have "420 + off \<le> t" by auto
  ultimately show ?thesis by simp
qed

lemma dayTicks_spaced: "sorted_wrt (\<lambda>a b. a + 90 \<le> b) (dayTicks off)"
proof -
  have "sorted_wrt (\<lambda>a b. a + 90 \<le> b) (map (\<lambda>k. 7 * 60 + off + 90 * int k) [0..<11])"
    by (simp add: sorted_wrt_map sorted_wrt_iff_nth_less)
  then show ?thesis
    unfolding dayTicks_def by (subst takeWhile_eq_take) (rule sorted_wrt_take)
qed

lemma startsAt_slotAt: "0 \<le> t \<Longrightarrow> t < 6000 \<Longrightarrow> startsAt (slotAt c d p t) = d * 1440 + t"
  by (simp add: startsAt_def slotAt_def Let_def timeMinutes_formatTime)

lemma endsAt_slotAt: "0 \<le> t \<Longrightarrow> t < 5910 \<Longrightarrow> endsAt (slotAt c d p t) = d * 1440 + t + 90"
  by (simp add: endsAt_def slotAt_def Let_def timeMinutes_formatTime)

subsection \<open>The date loop\<close>

lemma dateLoop_form:
  assumes "dateLoop tz c off t tEnd acc = Some rows"
  shows "\<exists>n. rows = acc @ concat (map (dayRows tz c off) (walk n tz t))
        \<and> (\<forall>u \<in> set (walk n tz t). u \<le> tEnd)
        \<and> \<not> (setDateNext tz ^^ n) t \<le> tEnd"
  using assms
proof (induct tz c off t tEnd acc rows rule: dateLoop.raw_induct[rotated 1, consumes 1])
  case (1 loop tz c off t tEnd acc rows)
  note IH = 1(1) and body = 1(2)
  show ?case
  proof (cases "t \<le> tEnd")
    case True
    from body True have call: "loop tz c off (setDateNext tz t) tEnd
        (acc @ hourLoop c off (toISODate t)
                 (if getDay tz t = 0 \<or> getDay tz t = 6 then 65 else 40) 14) = Some rows"
      by (simp only: if_True)
    from IH[OF call] obtain n where
      n1: "rows = (acc @ hourLoop c off (toISODate t)
                 (if getDay tz t = 0 \<or> getDay tz t = 6 then 65 else 40) 14)
               @ concat (map (dayRows tz c off) (walk n tz (setDateNext tz t)))"
      and n2: "\<forall>u \<in> set (walk n tz (setDateNext tz t)). u \<le> tEnd"
      and n3: "\<not> (setDateNext tz ^^ n) (setDateNext tz t) \<le> tEnd"
      by blast
    have d: "hourLoop c off (toISODate t)
                 (if getDay tz t = 0 \<or> getDay tz t = 6 then 65 else 40) 14 = dayRows tz c off t"
      by (simp only: dayRows_def hourLoop_14)
    have "rows = acc @ concat (map (dayRows tz c off) (walk (Suc n) tz t))"
      unfolding n1 d by simp
    moreover have "\<forall>u \<in> set (walk (Suc n) tz t). u \<le> tEnd" using n2 True by simp
    moreover have "(setDateNext tz ^^ Suc n) t = (setDateNext tz ^^ n) (setDateNext tz t)"
      by (simp only: funpow_Suc_right o_apply)
    with n3 have "\<not> (setDateNext tz ^^ Suc n) t \<le> tEnd" by (simp del: funpow.simps)
    ultimately show ?thesis by blast
  next
    case False
    from body False have "rows = acc" by (simp only: if_False option.inject)
    then have "rows = acc @ concat (map (dayRows tz c off) (walk 0 tz t))
        \<and> (\<forall>u \<in> set (walk 0 tz t). u \<le> tEnd) \<and> \<not> (setDateNext tz ^^ 0) t \<le> tEnd"
      using False by simp
    then show ?thesis by blast
  qed
qed

lemma dateLoop_returns:
  assumes "advances tz"
  shows "\<exists>rows. dateLoop tz c off t tEnd acc = Some rows"
proof (induction "nat (tEnd - t + 1)" arbitrary: t acc rule: less_induct)
  case less
  show ?case
  proof (cases "t \<le> tEnd")
    case True
    have "t < setDateNext tz t" using assms by (simp add: advances_def)
    then have "nat (tEnd - setDateNext tz t + 1) < nat (tEnd - t + 1)" using True by simp
    from less[OF this] show ?thesis using True by (subst dateLoop.simps) simp
  next
    case False
    then show ?thesis by (subst dateLoop.simps) simp
  qed
qed

lemma dateLoop_single:
  assumes "t < setDateNext tz t"
  shows "dateLoop tz c off t t [] = Some (dayRows tz c off t)"
  using assms
  by (subst dateLoop.simps, subst dateLoop.simps) (simp add: dayRows_def hourLoop_14)

lemma utc_dates [simp]:
  "setDateNext utc (newDate d) = newDate (d + 1)"
  "toISODate (newDate d) = d"
  "getDay utc (newDate d) = (d + 4) mod 7"
  "newDate d \<le> newDate e \<longleftrightarrow> d \<le> e"
  by (simp_all add: setDateNext_def UTCTime_def LocalTime_def utc_def newDate_def msPerDay_def
      toISODate_def getDay_def algebra_simps)

lemma dateLoop_utc:
  "dateLoop utc c off (newDate d) (newDate e) acc =
     Some (acc @ concat (map (\<lambda>d. dayRows utc c off (newDate d)) [d..e]))"
proof (induction "nat (e - d + 1)" arbitrary: d acc rule: less_induct)
  case less
  show ?case
  proof (cases "d \<le> e")
    case True
    then have u: "[d..e] = d # [d + 1..e]" by (simp add: upto_rec1)
    have "nat (e - (d + 1) + 1) < nat (e - d + 1)" using True by simp
    from less[OF this] show ?thesis
      using True by (subst dateLoop.simps) (simp add: u dayRows_def hourLoop_14)
  next
    case False
    then show ?thesis by (subst dateLoop.simps) simp
  qed
qed

lemma advances_utc: "advances utc"
  by (simp add: advances_def setDateNext_def UTCTime_def LocalTime_def utc_def msPerDay_def)

lemma advances_tallinn: "advances tallinn_2025"
  by (simp add: advances_def setDateNext_def UTCTime_def LocalTime_def tallinn_2025_def msPerDay_def)


lemma generated_form:
  assumes "generateSlotsForCourt tz c cfg s e = Some rows"
  shows "\<exists>n. rows = concat (map (dayRows tz c (offset_minutes cfg)) (walk n tz (newDate s)))
        \<and> (\<forall>u \<in> set (walk n tz (newDate s)). u \<le> newDate e)
        \<and> \<not> (setDateNext tz ^^ n) (newDate s) \<le> newDate e"
  using dateLoop_form[OF assms[unfolded generateSlotsForCourt_def]] by simp

lemma generated_row:
  assumes "generateSlotsForCourt tz c cfg s e = Some rows" "r \<in> set rows"
  obtains t u where "u \<in> set (dayTicks (offset_minutes cfg))"
    "r = slotAt c (toISODate t) (if getDay tz t = 0 \<or> getDay tz t = 6 then 65 else 40) u"
proof -
  from generated_form[OF assms(1)] obtain n where
    "rows = concat (map (dayRows tz c (offset_minutes cfg)) (walk n tz (newDate s)))"
    by blast
  with assms(2) obtain t where "r \<in> set (dayRows tz c (offset_minutes cfg) t)" by auto
  then show ?thesis using that by (auto simp: dayRows_def)
qed

lemma generated_utc:
  "generateSlotsForCourt utc c cfg s e =
     Some (concat (map (\<lambda>d. dayRows utc c (offset_minutes cfg) (newDate d)) [s..e]))"
  by (simp add: generateSlotsForCourt_def dateLoop_utc)

lemma generated_returns:
  "advances tz \<Longrightarrow> \<exists>rows. generateSlotsForCourt tz c cfg s e = Some rows"
  unfolding generateSlotsForCourt_def by (rule dateLoop_returns)

lemma generated_single:
  assumes "advances tz"
  shows "generateSlotsForCourt tz c cfg d d = Some (dayRows tz c (offset_minutes cfg) (newDate d))"
proof -
  have "newDate d < setDateNext tz (newDate d)" using assms by (simp add: advances_def)
  then show ?thesis unfolding generateSlotsForCourt_def by (rule dateLoop_single)
qed

subsection \<open>The tick walk\<close>

text \<open>
  C4, as amended. On a server whose clock is UTC, for every court, offset and date range,
  the run returns the slots of each date of the range in turn, one per tick, the ticks
  being 7:00 plus the court's offset and then every 90 minutes, at most eleven of them,
  up to but excluding the first tick that would start at or after 23:00; each slot ends
  90 minutes after its tick, where the next tick starts. In any time zone, whatever a
  run returns is made of such walks, one for each round of its date loop. A slot is kept
  when its start is before 23:00, whatever its end: in every time zone whose dates
  advance the run returns, and over a single date a court with offset 0 gets the slots
  from 07:00-08:30 to a last slot 22:00-23:30, a court with offset 30 those from
  07:30-09:00 to 22:30-24:00.
\<close>

theorem generator_walks_fixed_ticks:
  "generateSlotsForCourt utc courtName config startDate endDate =
     Some (concat (map (\<lambda>d. map (slotAt courtName d
                                (if getDay utc (newDate d) = 0 \<or> getDay utc (newDate d) = 6
                                 then 65 else 40))
                        (takeWhile (\<lambda>t. t < 23 * 60)
                           (map (\<lambda>k. 7 * 60 + offset_minutes config + 90 * int k) [0..<11])))
                 [startDate..endDate]))
   \<and> (generateSlotsForCourt tz courtName config startDate endDate = Some rows \<longrightarrow>
        (\<exists>n. rows =
           concat (map (\<lambda>t. map (slotAt courtName (toISODate t)
                                 (if getDay tz t = 0 \<or> getDay tz t = 6 then 65 else 40))
                         (takeWhile (\<lambda>t. t < 23 * 60)
                            (map (\<lambda>k. 7 * 60 + offset_minutes config + 90 * int k) [0..<11])))
                  (walk n tz (newDate startDate)))))
   \<and> (advances tz \<longrightarrow>
        (\<exists>returned. generateSlotsForCourt tz courtName config startDate endDate = Some returned)
        \<and> map_option (map (\<lambda>r. (start_time r, end_time r)))
            (generateSlotsForCourt tz courtName \<lparr>offset_minutes = 0\<rparr> startDate startDate) =
          Some [(''07:00:00'', ''08:30:00''), (''08:30:00'', ''10:00:00''), (''10:00:00'', ''11:30:00''),
        (''11:30:00'', ''13:00:00''), (''13:00:00'', ''14:30:00''), (''14:30:00'', ''16:00:00''),
        (''16:00:00'', ''17:30:00''), (''17:30:00'', ''19:00:00''), (''19:00:00'', ''20:30:00''),
        (''20:30:00'', ''22:00:00''), (''22:00:00'', ''23:30:00'')]
        \<and> map_option (map (\<lambda>r. (start_time r, end_time r)))
            (generateSlotsForCourt tz courtName \<lparr>offset_minutes = 30\<rparr> startDate startDate) =
          Some [(''07:30:00'', ''09:00:00''), (''09:00:00'', ''10:30:00''), (''10:30:00'', ''12:00:00''),
        (''12:00:00'', ''13:30:00''), (''13:30:00'', ''15:00:00''), (''15:00:00'', ''16:30:00''),
        (''16:30:00'', ''18:00:00''), (''18:00:00'', ''19:30:00''), (''19:30:00'', ''21:00:00''),
        (''21:00:00'', ''22:30:00''), (''22:30:00'', ''24:00:00'')])"
proof -
  have times: "map (\<lambda>r. (start_time r, end_time r)) (dayRows tz courtName off t)
      = map (\<lambda>t. (formatTime t, formatTime (t + 90))) (dayTicks off)" for off t
    by (simp add: dayRows_def slotAt_def Let_def comp_def)
  have f0: "map (\<lambda>t. (formatTime t, formatTime (t + 90)))
        [420, 510, 600, 690, 780, 870, 960, 1050, 1140, 1230, 1320] =
       [(''07:00:00'', ''08:30:00''), (''08:30:00'', ''10:00:00''), (''10:00:00'', ''11:30:00''),
        (''11:30:00'', ''13:00:00''), (''13:00:00'', ''14:30:00''), (''14:30:00'', ''16:00:00''),
        (''16:00:00'', ''17:30:00''), (''17:30:00'', ''19:00:00''), (''19:00:00'', ''20:30:00''),
        (''20:30:00'', ''22:00:00''), (''22:00:00'', ''23:30:00'')]"
    by code_simp
  have f30: "map (\<lambda>t. (formatTime t, formatTime (t + 90)))
        [450, 540, 630, 720, 810, 900, 990, 1080, 1170, 1260, 1350] =
       [(''07:30:00'', ''09:00:00''), (''09:00:00'', ''10:30:00''), (''10:30:00'', ''12:00:00''),
        (''12:00:00'', ''13:30:00''), (''13:30:00'', ''15:00:00''), (''15:00:00'', ''16:30:00''),
        (''16:30:00'', ''18:00:00''), (''18:00:00'', ''19:30:00''), (''19:30:00'', ''21:00:00''),
        (''21:00:00'', ''22:30:00''), (''22:30:00'', ''24:00:00'')]"
    by code_simp
  have A: "generateSlotsForCourt utc courtName config startDate endDate =
     Some (concat (map (\<lambda>d. map (slotAt courtName d
                                (if getDay utc (newDate d) = 0 \<or> getDay utc (newDate d) = 6
                                 then 65 else 40))
                        (takeWhile (\<lambda>t. t < 23 * 60)
                           (map (\<lambda>k. 7 * 60 + offset_minutes config + 90 * int k) [0..<11])))
                 [startDate..endDate]))"
    unfolding generated_utc dayRows_def dayTicks_def by simp
  have B: "\<exists>n. rows =
           concat (map (\<lambda>t. map (slotAt courtName (toISODate t)
                                 (if getDay tz t = 0 \<or> getDay tz t = 6 then 65 else 40))
                         (takeWhile (\<lambda>t. t < 23 * 60)
                            (map (\<lambda>k. 7 * 60 + offset_minutes config + 90 * int k) [0..<11])))
                  (walk n tz (newDate startDate)))"
    if "generateSlotsForCourt tz courtName config startDate endDate = Some rows"
    using generated_form[OF that] unfolding dayRows_def dayTicks_def by blast
  have C: "\<exists>returned. generateSlotsForCourt tz courtName config startDate endDate = Some returned"
    if "advances tz"
    using that by (rule generated_returns)
  have D0: "map_option (map (\<lambda>r. (start_time r, end_time r)))
            (generateSlotsForCourt tz courtName \<lparr>offset_minutes = 0\<rparr> startDate startDate) =
          Some [(''07:00:00'', ''08:30:00''), (''08:30:00'', ''10:00:00''), (''10:00:00'', ''11:30:00''),
        (''11:30:00'', ''13:00:00''), (''13:00:00'', ''14:30:00''), (''14:30:00'', ''16:00:00''),
        (''16:00:00'', ''17:30:00''), (''17:30:00'', ''19:00:00''), (''19:00:00'', ''20:30:00''),
        (''20:30:00'', ''22:00:00''), (''22:00:00'', ''23:30:00'')]"
    if "advances tz"
    by (simp only: generated_single[OF that] option.map times court_config.select_convs
        dayTicks_0 f0)
  have D30: "map_option (map (\<lambda>r. (start_time r, end_time r)))
            (generateSlotsForCourt tz courtName \<lparr>offset_minutes = 30\<rparr> startDate startDate) =
          Some [(''07:30:00'', ''09:00:00''), (''09:00:00'', ''10:30:00''), (''10:30:00'', ''12:00:00''),
        (''12:00:00'', ''13:30:00''), (''13:30:00'', ''15:00:00''), (''15:00:00'', ''16:30:00''),
        (''16:30:00'', ''18:00:00''), (''18:00:00'', ''19:30:00''), (''19:30:00'', ''21:00:00''),
        (''21:00:00'', ''22:30:00''), (''22:30:00'', ''24:00:00'')]"
    if "advances tz"
    by (simp only: generated_single[OF that] option.map times court_config.select_convs
        dayTicks_30 f30)
  show ?thesis using A B C D0 D30 by blast
qed

theorem generator_walks_fixed_ticks_witness:
  "advances tallinn_2025
   \<and> map_option (map (\<lambda>r. (start_time r, end_time r)))
       (generateSlotsForCourt tallinn_2025 ''Court A'' \<lparr>offset_minutes = 0\<rparr> 20176 20176) =
     Some [(''07:00:00'', ''08:30:00''), (''08:30:00'', ''10:00:00''), (''10:00:00'', ''11:30:00''),
        (''11:30:00'', ''13:00:00''), (''13:00:00'', ''14:30:00''), (''14:30:00'', ''16:00:00''),
        (''16:00:00'', ''17:30:00''), (''17:30:00'', ''19:00:00''), (''19:00:00'', ''20:30:00''),
        (''20:30:00'', ''22:00:00''), (''22:00:00'', ''23:30:00'')]
   \<and> (\<exists>n. the (generateSlotsForCourt tallinn_2025 ''Court A'' \<lparr>offset_minutes = 0\<rparr> 20176 20178) =
           concat (map (\<lambda>t. map (slotAt ''Court A'' (toISODate t)
                                 (if getDay tallinn_2025 t = 0 \<or> getDay tallinn_2025 t = 6
                                  then 65 else 40))
                         (takeWhile (\<lambda>t. t < 23 * 60)
                            (map (\<lambda>k. 7 * 60 + offset_minutes \<lparr>offset_minutes = 0\<rparr>
                                        + 90 * int k) [0..<11])))
                  (walk n tallinn_2025 (newDate 20176))))"
proof -
  have g: "generateSlotsForCourt tallinn_2025 ''Court A'' \<lparr>offset_minutes = 0\<rparr> 20176 20178 =
      Some (the (generateSlotsForCourt tallinn_2025 ''Court A'' \<lparr>offset_minutes = 0\<rparr> 20176 20178))"
    by code_simp
  from generator_walks_fixed_ticks[where tz = tallinn_2025 and courtName = "''Court A''"
      and config = "\<lparr>offset_minutes = 0\<rparr>" and startDate = 20176 and endDate = 20178
      and rows = "the (generateSlotsForCourt tallinn_2025 ''Court A'' \<lparr>offset_minutes = 0\<rparr>
                        20176 20178)"]
    advances_tallinn g
  show ?thesis by blast
qed

text \<open>
  C4 as stated fails: for a court with offset 0 the eleventh slot of a day starts at
  22:00, after 21:30.
\<close>

theorem last_slot_starts_at_2200:
  "generateSlotsForCourt utc ''Court A'' \<lparr>offset_minutes = 0\<rparr> 20089 20089 \<noteq> None
   \<and> 10 < length (the (generateSlotsForCourt utc ''Court A'' \<lparr>offset_minutes = 0\<rparr> 20089 20089))
   \<and> start_time (the (generateSlotsForCourt utc ''Court A'' \<lparr>offset_minutes = 0\<rparr> 20089 20089) ! 10)
       = ''22:00:00''
   \<and> end_time (the (generateSlotsForCourt utc ''Court A'' \<lparr>offset_minutes = 0\<rparr> 20089 20089) ! 10)
       = ''23:30:00''
   \<and> 21 * 60 + 30 <
       timeMinutes (start_time
         (the (generateSlotsForCourt utc ''Court A'' \<lparr>offset_minutes = 0\<rparr> 20089 20089) ! 10))"
  by code_simp

subsection \<open>Prices\<close>

text \<open>
  C5, as amended. The generator consults no rate table. Whatever a run returns, in any
  time zone, every slot in it is priced 40 (4000 cents) or 65 (6500 cents), never 85. On
  a server whose clock is UTC the run returns and the price depends on the slot's date
  alone, whatever its time of day: 40 on a date from Monday to Friday, 65 on a Saturday
  or Sunday.
\<close>

theorem weekday_price_is_flat:
  "(generateSlotsForCourt tz courtName config startDate endDate = Some rows \<longrightarrow>
      (\<forall>r \<in> set rows. base_price_cents r = 4000 \<or> base_price_cents r = 6500))
   \<and> (\<exists>returned. generateSlotsForCourt utc courtName config startDate endDate = Some returned
        \<and> (\<forall>r \<in> set returned.
              base_price_cents r =
                (if getDay utc (newDate (slot_date r)) = 0 \<or> getDay utc (newDate (slot_date r)) = 6
                 then 6500 else 4000)))"
proof (intro conjI impI ballI)
  fix r
  assume "generateSlotsForCourt tz courtName config startDate endDate = Some rows" "r \<in> set rows"
  then show "base_price_cents r = 4000 \<or> base_price_cents r = 6500"
    by (rule generated_row) (simp add: slotAt_def Let_def)
next
  let ?returned = "concat (map (\<lambda>d. dayRows utc courtName (offset_minutes config) (newDate d))
      [startDate..endDate])"
  have "\<forall>r \<in> set ?returned.
      base_price_cents r =
        (if getDay utc (newDate (slot_date r)) = 0 \<or> getDay utc (newDate (slot_date r)) = 6
         then 6500 else 4000)"
    by (auto simp: dayRows_def slotAt_def Let_def)
  then show "\<exists>returned. generateSlotsForCourt utc courtName config startDate endDate = Some returned
        \<and> (\<forall>r \<in> set returned.
              base_price_cents r =
                (if getDay utc (newDate (slot_date r)) = 0 \<or> getDay utc (newDate (slot_date r)) = 6
                 then 6500 else 4000))"
    using generated_utc by blast
qed

theorem weekday_price_is_flat_witness:
  "getDay tallinn_2025 (newDate 20089) = 3
   \<and> start_time (the (generateSlotsForCourt tallinn_2025 ''Court A'' \<lparr>offset_minutes = 0\<rparr>
                        20089 20089) ! 7) = ''17:30:00''
   \<and> (base_price_cents (the (generateSlotsForCourt tallinn_2025 ''Court A'' \<lparr>offset_minutes = 0\<rparr>
                        20089 20089) ! 7) = 4000
      \<or> base_price_cents (the (generateSlotsForCourt tallinn_2025 ''Court A'' \<lparr>offset_minutes = 0\<rparr>
                        20089 20089) ! 7) = 6500)"
proof -
  let ?G = "generateSlotsForCourt tallinn_2025 ''Court A'' \<lparr>offset_minutes = 0\<rparr> 20089 20089"
  have g: "?G = Some (the ?G)" by code_simp
  have m: "the ?G ! 7 \<in> set (the ?G)" by code_simp
  have d: "getDay tallinn_2025 (newDate 20089) = 3" by code_simp
  have s: "start_time (the ?G ! 7) = ''17:30:00''" by code_simp
  from weekday_price_is_flat[where tz = tallinn_2025 and courtName = "''Court A''"
      and config = "\<lparr>offset_minutes = 0\<rparr>" and startDate = 20089 and endDate = 20089
      and rows = "the ?G"] g m
  have "base_price_cents (the ?G ! 7) = 4000 \<or> base_price_cents (the ?G ! 7) = 6500"
    by blast
  with d s show ?thesis by blast
qed

text \<open>
  C5 as stated fails: day 20089 is Wednesday 2025-01-01, and on it the slot 17:00-18:30 of
  a court with offset 60 is priced 4000 cents, not 85.
\<close>

theorem wednesday_1700_slot_costs_40:
  "getDay utc (newDate 20089) = 3
   \<and> generateSlotsForCourt utc ''Court A'' \<lparr>offset_minutes = 60\<rparr> 20089 20089 \<noteq> None
   \<and> start_time (the (generateSlotsForCourt utc ''Court A'' \<lparr>offset_minutes = 60\<rparr> 20089 20089) ! 6)
       = ''17:00:00''
   \<and> end_time (the (generateSlotsForCourt utc ''Court A'' \<lparr>offset_minutes = 60\<rparr> 20089 20089) ! 6)
       = ''18:30:00''
   \<and> slot_date (the (generateSlotsForCourt utc ''Court A'' \<lparr>offset_minutes = 60\<rparr> 20089 20089) ! 6)
       = 20089
   \<and> base_price_cents
       (the (generateSlotsForCourt utc ''Court A'' \<lparr>offset_minutes = 60\<rparr> 20089 20089) ! 6) = 4000"
  by code_simp

subsection \<open>Overlap\<close>

lemma day_chronological:
  assumes "0 \<le> off"
  shows "sorted_wrt (\<lambda>a b. endsAt a \<le> startsAt b) (map (slotAt c d p) (dayTicks off))"
proof -
  have "\<And>a b. a \<in> set (dayTicks off) \<Longrightarrow> b \<in> set (dayTicks off) \<Longrightarrow> a + 90 \<le> b \<Longrightarrow>
      endsAt (slotAt c d p a) \<le> startsAt (slotAt c d p b)"
    using assms by (auto dest!: dayTicks_bounds simp: startsAt_slotAt endsAt_slotAt)
  then show ?thesis
    unfolding sorted_wrt_map
    by (rule sorted_wrt_mono_rel[rotated, OF dayTicks_spaced]) 
qed

lemma utc_day:
  "dayRows utc c off (newDate d) =
     map (slotAt c d (if (d + 4) mod 7 = 0 \<or> (d + 4) mod 7 = 6 then 65 else 40)) (dayTicks off)"
  by (simp add: dayRows_def)

lemma days_chronological:
  assumes "0 \<le> off" "sorted_wrt (<) ds"
  shows "sorted_wrt (\<lambda>a b. endsAt a \<le> startsAt b)
           (concat (map (\<lambda>d. dayRows utc c off (newDate d)) ds))"
  using assms(2)
proof (induction ds)
  case Nil
  then show ?case by simp
next
  case (Cons d ds)
  have rest: "sorted_wrt (\<lambda>a b. endsAt a \<le> startsAt b)
      (concat (map (\<lambda>d. dayRows utc c off (newDate d)) ds))"
    using Cons by simp
  have own: "sorted_wrt (\<lambda>a b. endsAt a \<le> startsAt b) (dayRows utc c off (newDate d))"
    unfolding utc_day by (rule day_chronological[OF assms(1)])
  have cross: "endsAt a \<le> startsAt b"
    if a: "a \<in> set (dayRows utc c off (newDate d))"
    and b: "b \<in> set (concat (map (\<lambda>d. dayRows utc c off (newDate d)) ds))" for a b
  proof -
    from a obtain t where t: "t \<in> set (dayTicks off)" "a = slotAt c d
        (if (d + 4) mod 7 = 0 \<or> (d + 4) mod 7 = 6 then 65 else 40) t"
      unfolding utc_day by auto
    from b obtain d' u where u: "d' \<in> set ds" "u \<in> set (dayTicks off)" "b = slotAt c d'
        (if (d' + 4) mod 7 = 0 \<or> (d' + 4) mod 7 = 6 then 65 else 40) u"
      unfolding utc_day by auto
    have "d < d'" using Cons.prems u(1) by simp
    with dayTicks_bounds[OF t(1)] dayTicks_bounds[OF u(2)] assms(1)
    show ?thesis
      by (simp add: t(2) u(3) startsAt_slotAt endsAt_slotAt)
  qed
  show ?case
    using own rest cross by (simp add: sorted_wrt_append)
qed

lemma court_name_generated:
  "generateSlotsForCourt tz c cfg s e = Some rows \<Longrightarrow> r \<in> set rows \<Longrightarrow> court_name r = c"
proof -
  assume "generateSlotsForCourt tz c cfg s e = Some rows" "r \<in> set rows"
  then obtain t u where
    "r = slotAt c (toISODate t) (if getDay tz t = 0 \<or> getDay tz t = 6 then 65 else 40) u"
    by (rule generated_row)
  then show ?thesis by (simp add: slotAt_def Let_def)
qed

lemma courtLoop_Cons:
  assumes "courtLoop tz ((c, cfg) # courts) s e = Some slots"
  obtains courtSlots rest where "generateSlotsForCourt tz c cfg s e = Some courtSlots"
    "courtLoop tz courts s e = Some rest" "slots = courtSlots @ rest"
  using assms by (auto split: option.splits)

lemma court_name_courtLoop:
  "courtLoop tz courts s e = Some slots \<Longrightarrow> r \<in> set slots \<Longrightarrow> court_name r \<in> fst ` set courts"
proof (induction courts arbitrary: slots)
  case Nil
  then show ?case by simp
next
  case (Cons x courts)
  obtain c cfg where x: "x = (c, cfg)" by (cases x)
  from Cons.prems(1)[unfolded x] obtain courtSlots rest where
    g: "generateSlotsForCourt tz c cfg s e = Some courtSlots"
    and l: "courtLoop tz courts s e = Some rest" and sl: "slots = courtSlots @ rest"
    by (rule courtLoop_Cons)
  from Cons.prems(2) sl consider "r \<in> set courtSlots" | "r \<in> set rest" by auto
  then show ?case
  proof cases
    case 1
    then show ?thesis using court_name_generated[OF g] x by simp
  next
    case 2
    then show ?thesis using Cons.IH[OF l] by simp
  qed
qed

lemma chronological_apart: "endsAt a \<le> startsAt b \<Longrightarrow> \<not> overlaps a b \<and> \<not> overlaps b a"
  by (auto simp: overlaps_def)

lemma utc_courtLoop_apart:
  assumes "distinct (map fst courts)"
    and "\<forall>(courtName, config) \<in> set courts. 0 \<le> offset_minutes config"
    and "courtLoop utc courts s e = Some slots"
  shows "sorted_wrt (\<lambda>a b. \<not> overlaps a b \<and> \<not> overlaps b a) slots"
  using assms
proof (induction courts arbitrary: slots)
  case Nil
  then show ?case by simp
next
  case (Cons x courts)
  obtain c cfg where x: "x = (c, cfg)" by (cases x)
  from Cons.prems(3)[unfolded x] obtain courtSlots rest where
    g: "generateSlotsForCourt utc c cfg s e = Some courtSlots"
    and l: "courtLoop utc courts s e = Some rest" and sl: "slots = courtSlots @ rest"
    by (rule courtLoop_Cons)
  have off: "0 \<le> offset_minutes cfg" using Cons.prems(2) x by simp
  have "courtSlots = concat (map (\<lambda>d. dayRows utc c (offset_minutes cfg) (newDate d)) [s..e])"
    using g by (simp add: generated_utc)
  then have "sorted_wrt (\<lambda>a b. endsAt a \<le> startsAt b) courtSlots"
    using days_chronological[OF off sorted_wrt_upto] by simp
  then have own: "sorted_wrt (\<lambda>a b. \<not> overlaps a b \<and> \<not> overlaps b a) courtSlots"
    by (rule sorted_wrt_mono_rel[rotated]) (rule chronological_apart)
  have rest: "sorted_wrt (\<lambda>a b. \<not> overlaps a b \<and> \<not> overlaps b a) rest"
    using Cons.IH[OF _ _ l] Cons.prems(1,2) by simp
  have other: "c \<notin> fst ` set courts" using Cons.prems(1) x by simp
  have cross: "\<not> overlaps a b \<and> \<not> overlaps b a"
    if "a \<in> set courtSlots" "b \<in> set rest" for a b
  proof -
    have "court_name a = c" by (rule court_name_generated[OF g that(1)])
    moreover have "court_name b \<noteq> c" using court_name_courtLoop[OF l that(2)] other by metis
    ultimately show ?thesis by (simp add: overlaps_def)
  qed
  show ?case
    unfolding sl sorted_wrt_append using own rest cross by blast
qed

text \<open>
  On a server whose clock is UTC the payload of a run has no two overlapping rows of one
  court, for courts with distinct names and offsets from 0: the date loop then visits
  each date of the range once.
\<close>

lemma utc_slots_never_overlap:
  assumes "distinct (map fst courts)"
    and "\<forall>(courtName, config) \<in> set courts. 0 \<le> offset_minutes config \<and> offset_minutes config < 90"
    and "courtLoop utc courts startDate endDate = Some slots"
    and "i < length slots" and "j < length slots" and "i \<noteq> j"
  shows "\<not> overlaps (slots ! i) (slots ! j)"
proof -
  have "\<forall>(courtName, config) \<in> set courts. 0 \<le> offset_minutes config"
    using assms(2) by auto
  from utc_courtLoop_apart[OF assms(1) this assms(3)]
  have apart: "\<And>a b. a < b \<Longrightarrow> b < length slots \<Longrightarrow>
      \<not> overlaps (slots ! a) (slots ! b) \<and> \<not> overlaps (slots ! b) (slots ! a)"
    by (simp add: sorted_wrt_iff_nth_less)
  from assms(6) consider "i < j" | "j < i" by linarith
  then show ?thesis
    using apart[of i j] apart[of j i] assms(4,5) by cases blast+
qed

text \<open>
  C9 fails on the code. The date loop steps the local day and prints the UTC day. On a
  server on Tallinn time, generating 2025-03-29 to 2025-03-31 for a court with offset 0
  returns 33 rows in which the date 2025-03-30 (day 20177) is walked twice, the second
  time from the instant 2025-03-30T23:00Z that summer time brings, and 2025-03-31 not at
  all: rows 11 and 22 are the same slot 07:00-08:30 of the same court on the same date,
  so they overlap, and the payload has a key twice.
\<close>

theorem tallinn_dst_emits_date_twice:
  "map_option length
     (generateSlotsForCourt tallinn_2025 ''Court A'' \<lparr>offset_minutes = 0\<rparr> 20176 20178) = Some 33
   \<and> map_option (map slot_date)
       (generateSlotsForCourt tallinn_2025 ''Court A'' \<lparr>offset_minutes = 0\<rparr> 20176 20178)
     = Some (replicate 11 20176 @ replicate 22 20177)
   \<and> keyOf (the (generateSlotsForCourt tallinn_2025 ''Court A'' \<lparr>offset_minutes = 0\<rparr>
                    20176 20178) ! 11)
     = (''Court A'', 20177, ''07:00:00'')
   \<and> keyOf (the (generateSlotsForCourt tallinn_2025 ''Court A'' \<lparr>offset_minutes = 0\<rparr>
                    20176 20178) ! 22)
     = (''Court A'', 20177, ''07:00:00'')
   \<and> overlaps
       (the (generateSlotsForCourt tallinn_2025 ''Court A'' \<lparr>offset_minutes = 0\<rparr> 20176 20178) ! 11)
       (the (generateSlotsForCourt tallinn_2025 ''Court A'' \<lparr>offset_minutes = 0\<rparr> 20176 20178) ! 22)
   \<and> \<not> distinct (map keyOf
         (the (generateSlotsForCourt tallinn_2025 ''Court A'' \<lparr>offset_minutes = 0\<rparr> 20176 20178)))"
  by code_simp

section \<open>Properties of reservation\<close>

subsection \<open>A request served alone\<close>

lemma create_booking_cases:
  "create_booking env req w =
     (case select_slot env (slotId req) w of
        None \<Rightarrow> (Returned (Response 400 (ErrorBody ''Slot not available'')), w)
      | Some slot \<Rightarrow>
          (let w1 = w\<lparr>stripe_log := stripe_log w @ [CheckoutRequest (session_params slot req)]\<rparr>
           in case checkout_sessions_create env (session_params slot req) of
                Inl message \<Rightarrow> (Returned (Response 500 (ErrorBody message)), w1)
              | Inr session \<Rightarrow>
                  (case db_fails env InsertBooking of
                     Some message \<Rightarrow> (Returned (Response 500 (ErrorBody message)), w1)
                   | None \<Rightarrow>
                       (Returned (Response 200
                          (BookingCreated (next_id w) (session_url session) (session_id session))),
                        update_is_available env (slotId req) False
                          (insert_row (pending_booking (next_id w) req slot (session_id session)) w1)))))"
  by (simp add: create_booking_def Let_def pending_booking_def split: option.splits sum.splits)

lemma single_Some: "single rows = Some r \<longleftrightarrow> rows = [r]"
  by (auto simp: single_def split: list.splits)

lemma select_slot_Some:
  "select_slot env sid w = Some slot \<Longrightarrow>
     slot \<in> set (available_slots w) \<and> id_slot slot = sid \<and> is_available slot"
proof -
  assume "select_slot env sid w = Some slot"
  then have "filter (\<lambda>r. id_slot r = sid \<and> is_available r) (available_slots w) = [slot]"
    by (auto simp: select_slot_def single_Some split: option.splits)
  then have "slot \<in> set (filter (\<lambda>r. id_slot r = sid \<and> is_available r) (available_slots w))"
    by simp
  then show ?thesis by simp
qed

lemma update_is_available_frame [simp]:
  "bookings (update_is_available env sid v w) = bookings w"
  "stripe_log (update_is_available env sid v w) = stripe_log w"
  "next_id (update_is_available env sid v w) = next_id w"
  "courts_rule (update_is_available env sid v w) = courts_rule w"
  by (simp_all add: update_is_available_def split: option.splits)

lemma insert_row_frame [simp]:
  "available_slots (insert_row b w) = available_slots w"
  "stripe_log (insert_row b w) = stripe_log w"
  "bookings (insert_row b w) = bookings w @ [b]"
  by (simp_all add: insert_row_def)

lemma update_is_available_done:
  "db_fails env UpdateSlot = None \<Longrightarrow>
     available_slots (update_is_available env sid v w) =
       map (\<lambda>r. if id_slot r = sid then r\<lparr>is_available := v\<rparr> else r) (available_slots w)"
  by (simp add: update_is_available_def)

lemma flipped_not_available:
  "\<not> list_ex (\<lambda>r. id_slot r = sid \<and> is_available r)
       (map (\<lambda>r. if id_slot r = sid then r\<lparr>is_available := False\<rparr> else r) rows)"
  by (induction rows) auto

lemma flipped_filter:
  "filter (\<lambda>r. id_slot r = sid \<and> is_available r)
       (map (\<lambda>r. if id_slot r = sid then r\<lparr>is_available := False\<rparr> else r) rows) = []"
  by (induction rows) auto

subsection \<open>What a reservation leaves behind\<close>

text \<open>
  C2, as amended. A reservation served alone always returns, and makes its two writes in
  order, the pending booking and then the slot flip, with no transaction around them.
  When it does not report success (the slot is not available, the payment-gateway call
  throws, or the booking insert is refused) neither effect has happened: bookings and
  slots are as before. When it reports success and the slot update went through, both
  have happened: one pending booking for the slot is added and the slot is no longer
  marked available. Nothing is promised about a refused slot update.
\<close>

theorem reserve_writes_in_order:
  assumes "create_booking env req w = (r, w')"
  shows "(\<exists>resp. r = Returned resp)
    \<and> (\<not> succeeded r \<longrightarrow> bookings w' = bookings w \<and> available_slots w' = available_slots w)
    \<and> (\<forall>slot message. select_slot env (slotId req) w = Some slot
          \<and> checkout_sessions_create env (session_params slot req) = Inl message
          \<longrightarrow> r = Returned (Response 500 (ErrorBody message)))
    \<and> (\<forall>message. db_fails env InsertBooking = Some message \<longrightarrow> \<not> succeeded r)
    \<and> (succeeded r \<and> db_fails env UpdateSlot = None \<longrightarrow>
          (\<exists>booking. bookings w' = bookings w @ [booking] \<and> status booking = Pending
                    \<and> slot_id booking = slotId req)
          \<and> available_slots w' =
              map (\<lambda>r. if id_slot r = slotId req then r\<lparr>is_available := False\<rparr> else r)
                (available_slots w)
          \<and> \<not> markedAvailable w' (slotId req))"
  using assms
  by (auto simp: create_booking_cases Let_def update_is_available_done markedAvailable_def
      flipped_not_available pending_booking_def
      split: option.splits sum.splits)


theorem reserve_writes_in_order_witness:
  "succeeded (fst (create_booking (demo_env ''cs_1'' []) (demo_request ''Ann'') demo_world))
   \<and> bookings (snd (create_booking (demo_env ''cs_1'' []) (demo_request ''Ann'') demo_world))
       = [demo_booking Pending]
   \<and> \<not> markedAvailable (snd (create_booking (demo_env ''cs_1'' []) (demo_request ''Ann'') demo_world)) 1
   \<and> \<not> succeeded (fst (create_booking (demo_env ''cs_1'' [InsertBooking]) (demo_request ''Ann'') demo_world))
   \<and> available_slots (snd (create_booking (demo_env ''cs_1'' [InsertBooking]) (demo_request ''Ann'') demo_world))
       = available_slots demo_world"
proof -
  let ?ok = "create_booking (demo_env ''cs_1'' []) (demo_request ''Ann'') demo_world"
  let ?ko = "create_booking (demo_env ''cs_1'' [InsertBooking]) (demo_request ''Ann'') demo_world"
  have s: "succeeded (fst ?ok)" by code_simp
  have u: "db_fails (demo_env ''cs_1'' []) UpdateSlot = None" by code_simp
  have b: "bookings (snd ?ok) = [demo_booking Pending]" by code_simp
  have i: "slotId (demo_request ''Ann'') = 1" by code_simp
  have f: "\<not> succeeded (fst ?ko)" by code_simp
  from reserve_writes_in_order[of "demo_env ''cs_1'' []" "demo_request ''Ann''" demo_world "fst ?ok" "snd ?ok"]
    s u i
  have 1: "\<not> markedAvailable (snd ?ok) 1" by simp
  from reserve_writes_in_order[of "demo_env ''cs_1'' [InsertBooking]" "demo_request ''Ann''" demo_world
      "fst ?ko" "snd ?ko"] f
  have 2: "available_slots (snd ?ko) = available_slots demo_world" by simp
  from s b f 1 2 show ?thesis by blast
qed

text \<open>
  C2 as stated fails: when the storage refuses the slot update, the handler still answers
  200, the pending booking stays and the slot is still marked available.
\<close>

theorem refused_slot_update_leaves_orphan:
  "db_fails (demo_env ''cs_1'' [UpdateSlot]) UpdateSlot = Some ''connection refused''
   \<and> fst (create_booking (demo_env ''cs_1'' [UpdateSlot]) (demo_request ''Ann'') demo_world)
       = Returned (Response 200 (BookingCreated 2 ''https://checkout/cs_1'' ''cs_1''))
   \<and> bookings (snd (create_booking (demo_env ''cs_1'' [UpdateSlot]) (demo_request ''Ann'') demo_world))
       = [demo_booking Pending]
   \<and> available_slots (snd (create_booking (demo_env ''cs_1'' [UpdateSlot]) (demo_request ''Ann'') demo_world))
       = [demo_slot True]
   \<and> markedAvailable (snd (create_booking (demo_env ''cs_1'' [UpdateSlot]) (demo_request ''Ann'') demo_world)) 1"
  by code_simp

subsection \<open>The order of the gateway call and the slot flip\<close>




subsection \<open>The amount charged\<close>

lemma book_slot_POST_success:
  assumes "fst (book_slot_POST env req w) = Response 200 (IntentCreated b c)"
  obtains slot paymentIntent where
    "select_slot env (slotId req) w = Some slot"
    "paymentIntents_create env \<lparr> amount = base_price_cents slot, intent_slot_id = slotId req,
        intent_customer_email = customerEmail req \<rparr> = Inr paymentIntent"
    "snd (book_slot_POST env req w) =
       update_is_available env (slotId req) False
         (insert_row (pending_booking (next_id w) req slot (intent_id paymentIntent))
            (w\<lparr>stripe_log := stripe_log w @ [IntentRequest \<lparr> amount = base_price_cents slot,
                 intent_slot_id = slotId req, intent_customer_email = customerEmail req \<rparr>]\<rparr>))"
  using assms
  by (auto simp: book_slot_POST_def Let_def split: option.splits sum.splits)

lemma create_booking_success:
  assumes "fst (create_booking env req w) = Returned (Response 200 (BookingCreated b u s))"
  obtains slot where
    "select_slot env (slotId req) w = Some slot"
    "snd (create_booking env req w) =
       update_is_available env (slotId req) False
         (insert_row (pending_booking (next_id w) req slot s)
            (w\<lparr>stripe_log := stripe_log w @ [CheckoutRequest (session_params slot req)]\<rparr>))"
  using assms
  by (auto simp: create_booking_cases Let_def split: option.splits sum.splits)

lemma select_slot_reprice:
  "select_slot env sid (w\<lparr>available_slots := map (\<lambda>r. r\<lparr>current_price_cents := g r\<rparr>) (available_slots w)\<rparr>)
     = map_option (\<lambda>r. r\<lparr>current_price_cents := g r\<rparr>) (select_slot env sid w)"
proof -
  have f: "filter (\<lambda>r. id_slot r = sid \<and> is_available r) (map (\<lambda>r. r\<lparr>current_price_cents := g r\<rparr>) rows)
      = map (\<lambda>r. r\<lparr>current_price_cents := g r\<rparr>) (filter (\<lambda>r. id_slot r = sid \<and> is_available r) rows)"
    for rows by (induction rows) auto
  have s: "single (map h rows) = map_option h (single rows)" for h :: "slot_row \<Rightarrow> slot_row" and rows
    by (auto simp: single_def split: list.splits)
  show ?thesis by (simp add: select_slot_def f s split: option.splits)
qed

text \<open>
  C10. Whenever either reservation handler succeeds, the slot it read is a stored row with
  the requested key that was marked available, the one request it sent to the payment
  gateway carries that row's \<^verbatim>\<open>base_price_cents\<close> as its amount, and the one booking it
  added records the same \<^verbatim>\<open>base_price_cents\<close> as \<^verbatim>\<open>amount_paid_cents\<close>. The current price
  plays no part: replacing the \<^verbatim>\<open>current_price_cents\<close> of the stored slots by anything
  changes neither the response, nor the requests sent to the gateway, nor the bookings.
\<close>

theorem charged_amount_is_base_price:
  "(fst (create_booking env req w) = Returned (Response 200 (BookingCreated b u s)) \<longrightarrow>
      (\<exists>slot params booking.
         slot \<in> set (available_slots w) \<and> id_slot slot = slotId req \<and> is_available slot
         \<and> stripe_log (snd (create_booking env req w)) = stripe_log w @ [CheckoutRequest params]
         \<and> unit_amount params = base_price_cents slot
         \<and> bookings (snd (create_booking env req w)) = bookings w @ [booking]
         \<and> id_booking booking = b \<and> stripe_payment_intent_id booking = s
         \<and> amount_paid_cents booking = base_price_cents slot))
   \<and> (fst (book_slot_POST env req w) = Response 200 (IntentCreated b' secret) \<longrightarrow>
      (\<exists>slot params booking.
         slot \<in> set (available_slots w) \<and> id_slot slot = slotId req \<and> is_available slot
         \<and> stripe_log (snd (book_slot_POST env req w)) = stripe_log w @ [IntentRequest params]
         \<and> amount params = base_price_cents slot
         \<and> bookings (snd (book_slot_POST env req w)) = bookings w @ [booking]
         \<and> id_booking booking = b'
         \<and> amount_paid_cents booking = base_price_cents slot))
   \<and> (let w2 = w\<lparr>available_slots :=
                    map (\<lambda>r. r\<lparr>current_price_cents := g r\<rparr>) (available_slots w)\<rparr>
      in fst (create_booking env req w2) = fst (create_booking env req w)
       \<and> stripe_log (snd (create_booking env req w2)) = stripe_log (snd (create_booking env req w))
       \<and> bookings (snd (create_booking env req w2)) = bookings (snd (create_booking env req w))
       \<and> fst (book_slot_POST env req w2) = fst (book_slot_POST env req w)
       \<and> stripe_log (snd (book_slot_POST env req w2)) = stripe_log (snd (book_slot_POST env req w))
       \<and> bookings (snd (book_slot_POST env req w2)) = bookings (snd (book_slot_POST env req w)))"
proof (intro conjI impI)
  assume a: "fst (create_booking env req w) = Returned (Response 200 (BookingCreated b u s))"
  from a obtain slot where sl: "select_slot env (slotId req) w = Some slot"
    and w': "snd (create_booking env req w) =
       update_is_available env (slotId req) False
         (insert_row (pending_booking (next_id w) req slot s)
            (w\<lparr>stripe_log := stripe_log w @ [CheckoutRequest (session_params slot req)]\<rparr>))"
    by (rule create_booking_success)
  have b: "b = next_id w"
    using a sl by (auto simp: create_booking_cases Let_def split: option.splits sum.splits)
  show "\<exists>slot params booking.
         slot \<in> set (available_slots w) \<and> id_slot slot = slotId req \<and> is_available slot
         \<and> stripe_log (snd (create_booking env req w)) = stripe_log w @ [CheckoutRequest params]
         \<and> unit_amount params = base_price_cents slot
         \<and> bookings (snd (create_booking env req w)) = bookings w @ [booking]
         \<and> id_booking booking = b \<and> stripe_payment_intent_id booking = s
         \<and> amount_paid_cents booking = base_price_cents slot"
    apply (rule exI[of _ slot])
    apply (rule exI[of _ "session_params slot req"])
    apply (rule exI[of _ "pending_booking (next_id w) req slot s"])
    using select_slot_Some[OF sl]
    apply (simp add: w' b session_params_def pending_booking_def)
    done
next
  assume a: "fst (book_slot_POST env req w) = Response 200 (IntentCreated b' secret)"
  from a obtain slot paymentIntent where sl: "select_slot env (slotId req) w = Some slot"
    and "paymentIntents_create env \<lparr> amount = base_price_cents slot, intent_slot_id = slotId req,
        intent_customer_email = customerEmail req \<rparr> = Inr paymentIntent"
    and w': "snd (book_slot_POST env req w) =
       update_is_available env (slotId req) False
         (insert_row (pending_booking (next_id w) req slot (intent_id paymentIntent))
            (w\<lparr>stripe_log := stripe_log w @ [IntentRequest \<lparr> amount = base_price_cents slot,
                 intent_slot_id = slotId req, intent_customer_email = customerEmail req \<rparr>]\<rparr>))"
    by (rule book_slot_POST_success)
  have b: "b' = next_id w"
    using a sl by (auto simp: book_slot_POST_def pending_booking_def Let_def split: option.splits sum.splits)
  show "\<exists>slot params booking.
         slot \<in> set (available_slots w) \<and> id_slot slot = slotId req \<and> is_available slot
         \<and> stripe_log (snd (book_slot_POST env req w)) = stripe_log w @ [IntentRequest params]
         \<and> amount params = base_price_cents slot
         \<and> bookings (snd (book_slot_POST env req w)) = bookings w @ [booking]
         \<and> id_booking booking = b'
         \<and> amount_paid_cents booking = base_price_cents slot"
    apply (rule exI[of _ slot])
    apply (rule exI[of _ "\<lparr> amount = base_price_cents slot,
                 intent_slot_id = slotId req, intent_customer_email = customerEmail req \<rparr>"])
    apply (rule exI[of _ "pending_booking (next_id w) req slot (intent_id paymentIntent)"])
    using select_slot_Some[OF sl]
    apply (simp add: w' b pending_booking_def)
    done
next
  show "let w2 = w\<lparr>available_slots :=
                    map (\<lambda>r. r\<lparr>current_price_cents := g r\<rparr>) (available_slots w)\<rparr>
      in fst (create_booking env req w2) = fst (create_booking env req w)
       \<and> stripe_log (snd (create_booking env req w2)) = stripe_log (snd (create_booking env req w))
       \<and> bookings (snd (create_booking env req w2)) = bookings (snd (create_booking env req w))
       \<and> fst (book_slot_POST env req w2) = fst (book_slot_POST env req w)
       \<and> stripe_log (snd (book_slot_POST env req w2)) = stripe_log (snd (book_slot_POST env req w))
       \<and> bookings (snd (book_slot_POST env req w2)) = bookings (snd (book_slot_POST env req w))"
    by (cases "select_slot env (slotId req) w")
       (simp_all add: Let_def create_booking_cases book_slot_POST_def select_slot_reprice
          session_params_def pending_booking_def split: sum.splits option.splits)
qed


theorem charged_amount_is_base_price_witness:
  "fst (create_booking (demo_env ''cs_1'' []) (demo_request ''Ann'') demo_world)
     = Returned (Response 200 (BookingCreated 2 ''https://checkout/cs_1'' ''cs_1''))
   \<and> (\<exists>slot params booking.
         slot \<in> set (available_slots demo_world) \<and> id_slot slot = slotId (demo_request ''Ann'')
         \<and> is_available slot
         \<and> stripe_log (snd (create_booking (demo_env ''cs_1'' []) (demo_request ''Ann'') demo_world))
             = stripe_log demo_world @ [CheckoutRequest params]
         \<and> unit_amount params = base_price_cents slot
         \<and> bookings (snd (create_booking (demo_env ''cs_1'' []) (demo_request ''Ann'') demo_world))
             = bookings demo_world @ [booking]
         \<and> id_booking booking = 2 \<and> stripe_payment_intent_id booking = ''cs_1''
         \<and> amount_paid_cents booking = base_price_cents slot)
   \<and> fst (book_slot_POST (demo_env ''pi_1'' []) (demo_request ''Ann'') demo_world)
     = Response 200 (IntentCreated 2 ''pi_1_secret'')
   \<and> (\<exists>slot params booking.
         slot \<in> set (available_slots demo_world) \<and> id_slot slot = slotId (demo_request ''Ann'')
         \<and> is_available slot
         \<and> stripe_log (snd (book_slot_POST (demo_env ''pi_1'' []) (demo_request ''Ann'') demo_world))
             = stripe_log demo_world @ [IntentRequest params]
         \<and> amount params = base_price_cents slot
         \<and> bookings (snd (book_slot_POST (demo_env ''pi_1'' []) (demo_request ''Ann'') demo_world))
             = bookings demo_world @ [booking]
         \<and> id_booking booking = 2
         \<and> amount_paid_cents booking = base_price_cents slot)"
proof -
  have 1: "fst (create_booking (demo_env ''cs_1'' []) (demo_request ''Ann'') demo_world)
     = Returned (Response 200 (BookingCreated 2 ''https://checkout/cs_1'' ''cs_1''))"
    by code_simp
  have 2: "fst (book_slot_POST (demo_env ''pi_1'' []) (demo_request ''Ann'') demo_world)
     = Response 200 (IntentCreated 2 ''pi_1_secret'')"
    by code_simp
  from 1 charged_amount_is_base_price[where env = "demo_env ''cs_1'' []"
      and req = "demo_request ''Ann''" and w = demo_world
      and b = 2 and u = "''https://checkout/cs_1''" and s = "''cs_1''"]
  have 3: "\<exists>slot params booking.
         slot \<in> set (available_slots demo_world) \<and> id_slot slot = slotId (demo_request ''Ann'')
         \<and> is_available slot
         \<and> stripe_log (snd (create_booking (demo_env ''cs_1'' []) (demo_request ''Ann'') demo_world))
             = stripe_log demo_world @ [CheckoutRequest params]
         \<and> unit_amount params = base_price_cents slot
         \<and> bookings (snd (create_booking (demo_env ''cs_1'' []) (demo_request ''Ann'') demo_world))
             = bookings demo_world @ [booking]
         \<and> id_booking booking = 2 \<and> stripe_payment_intent_id booking = ''cs_1''
         \<and> amount_paid_cents booking = base_price_cents slot"
    by blast
  from 2 charged_amount_is_base_price[where env = "demo_env ''pi_1'' []"
      and req = "demo_request ''Ann''" and w = demo_world
      and b' = 2 and secret = "''pi_1_secret''"]
  have 4: "\<exists>slot params booking.
         slot \<in> set (available_slots demo_world) \<and> id_slot slot = slotId (demo_request ''Ann'')
         \<and> is_available slot
         \<and> stripe_log (snd (book_slot_POST (demo_env ''pi_1'' []) (demo_request ''Ann'') demo_world))
             = stripe_log demo_world @ [IntentRequest params]
         \<and> amount params = base_price_cents slot
         \<and> bookings (snd (book_slot_POST (demo_env ''pi_1'' []) (demo_request ''Ann'') demo_world))
             = bookings demo_world @ [booking]
         \<and> id_booking booking = 2
         \<and> amount_paid_cents booking = base_price_cents slot"
    by blast
  from 1 2 3 4 show ?thesis by blast
qed

subsection \<open>One slot, several reservations\<close>

lemma create_booking_unavailable:
  "select_slot env (slotId req) w = None \<Longrightarrow>
     create_booking env req w = (Returned (Response 400 (ErrorBody ''Slot not available'')), w)"
  by (simp add: create_booking_cases)

lemma serve_all_unavailable:
  assumes "\<forall>(env, req) \<in> set calls. slotId req = sid"
    and "\<And>env. select_slot env sid w = None"
  shows "serve_all calls w =
     (replicate (length calls) (Returned (Response 400 (ErrorBody ''Slot not available''))), w)"
  using assms(1)
proof (induction calls)
  case Nil
  then show ?case by simp
next
  case (Cons c calls)
  obtain env req where c: "c = (env, req)" by (cases c)
  have "slotId req = sid" using Cons.prems c by simp
  then have "create_booking env req w =
      (Returned (Response 400 (ErrorBody ''Slot not available'')), w)"
    using assms(2) by (simp add: create_booking_unavailable)
  moreover have "serve_all calls w =
     (replicate (length calls) (Returned (Response 400 (ErrorBody ''Slot not available''))), w)"
    using Cons by simp
  ultimately show ?case by (simp add: c)
qed

lemma select_slot_after_flip:
  assumes "db_fails env UpdateSlot = None"
  shows "select_slot env' sid (update_is_available env sid False w) = None"
  by (simp add: select_slot_def update_is_available_done[OF assms] flipped_filter single_def
      split: option.splits)

text \<open>
  C1, as amended. When reservations of one slot are served one after another, each to
  its end before the next begins, and the first finds the slot available, gets its
  checkout session and has its two writes accepted, then exactly that first call
  succeeds and every later call fails with "Slot not available". The availability read
  and the mark-unavailable write are separate storage calls with the gateway call and
  the insert between them, so this holds for calls in sequence only.
\<close>

theorem sequential_reserve_one_success:
  assumes "select_slot env (slotId req) w = Some slot"
    and "checkout_sessions_create env (session_params slot req) = Inr session"
    and "db_fails env InsertBooking = None"
    and "db_fails env UpdateSlot = None"
    and "\<forall>(env', req') \<in> set later. slotId req' = slotId req"
  shows "fst (serve_all ((env, req) # later) w) =
     Returned (Response 200
       (BookingCreated (next_id w) (session_url session) (session_id session)))
     # replicate (length later) (Returned (Response 400 (ErrorBody ''Slot not available'')))"
proof -
  let ?w1 = "update_is_available env (slotId req) False
     (insert_row (pending_booking (next_id w) req slot (session_id session))
        (w\<lparr>stripe_log := stripe_log w @ [CheckoutRequest (session_params slot req)]\<rparr>))"
  have first: "create_booking env req w =
     (Returned (Response 200
        (BookingCreated (next_id w) (session_url session) (session_id session))), ?w1)"
    using assms(1-3) by (simp add: create_booking_cases Let_def)
  have gone: "\<And>env'. select_slot env' (slotId req) ?w1 = None"
    by (rule select_slot_after_flip[OF assms(4)])
  have "serve_all later ?w1 =
     (replicate (length later) (Returned (Response 400 (ErrorBody ''Slot not available''))), ?w1)"
    by (rule serve_all_unavailable[OF assms(5) gone])
  with first show ?thesis by simp
qed

theorem sequential_reserve_one_success_witness:
  "fst (serve_all [(demo_env ''cs_1'' [], demo_request ''Ann''),
                   (demo_env ''cs_2'' [], demo_request ''Bob''),
                   (demo_env ''cs_3'' [], demo_request ''Cid'')] demo_world) =
     [Returned (Response 200 (BookingCreated 2 ''https://checkout/cs_1'' ''cs_1'')),
      Returned (Response 400 (ErrorBody ''Slot not available'')),
      Returned (Response 400 (ErrorBody ''Slot not available''))]"
proof -
  have 1: "select_slot (demo_env ''cs_1'' []) (slotId (demo_request ''Ann'')) demo_world
      = Some (demo_slot True)" by code_simp
  have 2: "checkout_sessions_create (demo_env ''cs_1'' [])
        (session_params (demo_slot True) (demo_request ''Ann''))
      = Inr \<lparr>session_id = ''cs_1'', session_url = ''https://checkout/cs_1''\<rparr>" by code_simp
  have 3: "db_fails (demo_env ''cs_1'' []) InsertBooking = None" by code_simp
  have 4: "db_fails (demo_env ''cs_1'' []) UpdateSlot = None" by code_simp
  have 5: "\<forall>(env', req') \<in> set [(demo_env ''cs_2'' [], demo_request ''Bob''),
                   (demo_env ''cs_3'' [], demo_request ''Cid'')].
               slotId req' = slotId (demo_request ''Ann'')"
    by (simp add: demo_request_def)
  have n: "next_id demo_world = 2" by code_simp
  show ?thesis
    using sequential_reserve_one_success[OF 1 2 3 4 5] by (simp add: n)
qed

text \<open>
  C1 as stated fails: two reservations of slot 1 whose calls alternate both read the slot
  as available before either marks it, both succeed, and two bookings of the slot exist.
\<close>

theorem concurrent_reserves_both_succeed:
  "succeeded (snd (snd (fst (interleave [0, 1, 0, 1, 0, 1, 0, 1]
       ([(demo_env ''cs_1'' [], demo_request ''Ann'', AtSelect),
         (demo_env ''cs_2'' [], demo_request ''Bob'', AtSelect)], demo_world)) ! 0)))
   \<and> succeeded (snd (snd (fst (interleave [0, 1, 0, 1, 0, 1, 0, 1]
       ([(demo_env ''cs_1'' [], demo_request ''Ann'', AtSelect),
         (demo_env ''cs_2'' [], demo_request ''Bob'', AtSelect)], demo_world)) ! 1)))
   \<and> slotId (demo_request ''Ann'') = slotId (demo_request ''Bob'')
   \<and> map slot_id (bookings (snd (interleave [0, 1, 0, 1, 0, 1, 0, 1]
       ([(demo_env ''cs_1'' [], demo_request ''Ann'', AtSelect),
         (demo_env ''cs_2'' [], demo_request ''Bob'', AtSelect)], demo_world)))) = [1, 1]"
  by code_simp


section \<open>Properties of payment notifications\<close>

lemma webhook_delivers:
  "delivers env req event \<Longrightarrow> webhook env req w = (Response 200 Received, handle_event env event w)"
  by (auto simp: delivers_def webhook_def split: option.splits)

lemma confirm_twice:
  "map (\<lambda>b. if stripe_payment_intent_id b = session then b\<lparr>status := Confirmed\<rparr> else b)
     (map (\<lambda>b. if stripe_payment_intent_id b = session then b\<lparr>status := Confirmed\<rparr> else b) bs)
   = map (\<lambda>b. if stripe_payment_intent_id b = session then b\<lparr>status := Confirmed\<rparr> else b) bs"
  by (induction bs) auto

lemma confirm_filter:
  "filter (\<lambda>b. stripe_payment_intent_id b = session)
     (map (\<lambda>b. if stripe_payment_intent_id b = session then b\<lparr>status := Confirmed\<rparr> else b) bs)
   = map (\<lambda>b. b\<lparr>status := Confirmed\<rparr>) (filter (\<lambda>b. stripe_payment_intent_id b = session) bs)"
  by (induction bs) auto

lemma handle_completed:
  "db_fails env UpdateBooking = None \<Longrightarrow>
     handle_event env (CheckoutSessionCompleted session) w =
       w\<lparr>bookings :=
           map (\<lambda>b. if stripe_payment_intent_id b = session then b\<lparr>status := Confirmed\<rparr> else b)
             (bookings w)\<rparr>"
  by simp

lemma handle_completed_again:
  "handle_event env2 (CheckoutSessionCompleted session)
     (w\<lparr>bookings :=
           map (\<lambda>b. if stripe_payment_intent_id b = session then b\<lparr>status := Confirmed\<rparr> else b)
             (bookings w)\<rparr>)
   = w\<lparr>bookings :=
           map (\<lambda>b. if stripe_payment_intent_id b = session then b\<lparr>status := Confirmed\<rparr> else b)
             (bookings w)\<rparr>"
  by (simp add: confirm_twice split: option.splits)

text \<open>
  C7. Let a payment reference identify one booking, and let the same
  \<^verbatim>\<open>checkout.session.completed\<close> notification be delivered twice, the storage accepting
  the first delivery's update. Both deliveries answer 200; the second changes nothing at
  all; afterwards the booking with that reference is there once, confirmed, no booking
  was added or removed, and the slots are as they were, so the sold slot stays
  unavailable.
\<close>

theorem payment_completed_is_idempotent:
  assumes "delivers env1 req (CheckoutSessionCompleted session)"
    and "delivers env2 req (CheckoutSessionCompleted session)"
    and "db_fails env1 UpdateBooking = None"
    and "filter (\<lambda>b. stripe_payment_intent_id b = session) (bookings w) = [booking]"
  shows "fst (webhook env1 req w) = Response 200 Received
    \<and> fst (webhook env2 req (snd (webhook env1 req w))) = Response 200 Received
    \<and> snd (webhook env2 req (snd (webhook env1 req w))) = snd (webhook env1 req w)
    \<and> filter (\<lambda>b. stripe_payment_intent_id b = session)
         (bookings (snd (webhook env2 req (snd (webhook env1 req w)))))
       = [booking\<lparr>status := Confirmed\<rparr>]
    \<and> length (bookings (snd (webhook env2 req (snd (webhook env1 req w))))) = length (bookings w)
    \<and> available_slots (snd (webhook env2 req (snd (webhook env1 req w)))) = available_slots w"
proof -
  let ?w1 = "w\<lparr>bookings :=
           map (\<lambda>b. if stripe_payment_intent_id b = session then b\<lparr>status := Confirmed\<rparr> else b)
             (bookings w)\<rparr>"
  have 1: "webhook env1 req w = (Response 200 Received, ?w1)"
    by (simp only: webhook_delivers[OF assms(1)] handle_completed[OF assms(3)])
  have 2: "webhook env2 req ?w1 = (Response 200 Received, ?w1)"
    by (simp only: webhook_delivers[OF assms(2)] handle_completed_again)
  show ?thesis
    by (simp add: 1 2 confirm_filter assms(4))
qed

theorem payment_completed_is_idempotent_witness:
  "snd (webhook (demo_env ''x'' []) \<lparr>stripe_signature = Some ''valid'', raw_body = ''cs_1''\<rparr>
     (snd (webhook (demo_env ''x'' []) \<lparr>stripe_signature = Some ''valid'', raw_body = ''cs_1''\<rparr>
        (demo_world\<lparr>available_slots := [demo_slot False], bookings := [demo_booking Pending]\<rparr>))))
   = demo_world\<lparr>available_slots := [demo_slot False], bookings := [demo_booking Confirmed]\<rparr>
   \<and> fst (webhook (demo_env ''x'' []) \<lparr>stripe_signature = Some ''valid'', raw_body = ''cs_1''\<rparr>
     (snd (webhook (demo_env ''x'' []) \<lparr>stripe_signature = Some ''valid'', raw_body = ''cs_1''\<rparr>
        (demo_world\<lparr>available_slots := [demo_slot False], bookings := [demo_booking Pending]\<rparr>))))
   = Response 200 Received"
proof -
  let ?e = "demo_env ''x'' []"
  let ?r = "\<lparr>stripe_signature = Some ''valid'', raw_body = ''cs_1''\<rparr>"
  let ?w = "demo_world\<lparr>available_slots := [demo_slot False], bookings := [demo_booking Pending]\<rparr>"
  have d: "delivers ?e ?r (CheckoutSessionCompleted ''cs_1'')" by code_simp
  have u: "db_fails ?e UpdateBooking = None" by code_simp
  have f: "filter (\<lambda>b. stripe_payment_intent_id b = ''cs_1'') (bookings ?w) = [demo_booking Pending]"
    by (simp add: demo_booking_def)
  have 1: "snd (webhook ?e ?r ?w)
      = demo_world\<lparr>available_slots := [demo_slot False], bookings := [demo_booking Confirmed]\<rparr>"
    by code_simp
  from payment_completed_is_idempotent[OF d d u f] 1 show ?thesis by simp
qed

text \<open>
  C6, as amended. Neither notification looks at the status of the booking it finds. A
  delivered \<^verbatim>\<open>checkout.session.completed\<close> whose update is accepted sets every booking
  carrying its reference to confirmed, whatever it was, and leaves every other booking
  and every slot alone: a confirmed booking stays as it is, a cancelled or completed one
  becomes confirmed. A delivered \<^verbatim>\<open>checkout.session.expired\<close> whose reference identifies
  one booking, with the storage accepting its calls, deletes that booking whatever its
  status and marks its slot available.
\<close>

theorem notifications_ignore_booking_status:
  "(delivers env req (CheckoutSessionCompleted session) \<and> db_fails env UpdateBooking = None \<longrightarrow>
      bookings (snd (webhook env req w)) =
        map (\<lambda>b. if stripe_payment_intent_id b = session then b\<lparr>status := Confirmed\<rparr> else b)
          (bookings w)
      \<and> available_slots (snd (webhook env req w)) = available_slots w)
   \<and> (delivers env req (CheckoutSessionExpired session)
       \<and> db_fails env SelectBooking = None \<and> db_fails env DeleteBooking = None
       \<and> db_fails env UpdateSlot = None
       \<and> filter (\<lambda>b. stripe_payment_intent_id b = session) (bookings w) = [booking] \<longrightarrow>
      bookings (snd (webhook env req w)) =
        filter (\<lambda>b. stripe_payment_intent_id b \<noteq> session) (bookings w)
      \<and> booking \<notin> set (bookings (snd (webhook env req w)))
      \<and> available_slots (snd (webhook env req w)) =
          map (\<lambda>r. if id_slot r = slot_id booking then r\<lparr>is_available := True\<rparr> else r)
            (available_slots w))"
proof -
  have completed: "bookings (snd (webhook env req w)) =
        map (\<lambda>b. if stripe_payment_intent_id b = session then b\<lparr>status := Confirmed\<rparr> else b)
          (bookings w)
      \<and> available_slots (snd (webhook env req w)) = available_slots w"
    if "delivers env req (CheckoutSessionCompleted session)" "db_fails env UpdateBooking = None"
    by (simp add: webhook_delivers[OF that(1)] that(2))
  have expired: "bookings (snd (webhook env req w)) =
        filter (\<lambda>b. stripe_payment_intent_id b \<noteq> session) (bookings w)
      \<and> booking \<notin> set (bookings (snd (webhook env req w)))
      \<and> available_slots (snd (webhook env req w)) =
          map (\<lambda>r. if id_slot r = slot_id booking then r\<lparr>is_available := True\<rparr> else r)
            (available_slots w)"
    if d: "delivers env req (CheckoutSessionExpired session)"
      and ok: "db_fails env SelectBooking = None" "db_fails env DeleteBooking = None"
        "db_fails env UpdateSlot = None"
      and one: "filter (\<lambda>b. stripe_payment_intent_id b = session) (bookings w) = [booking]"
  proof -
    have w': "snd (webhook env req w) =
        update_is_available env (slot_id booking) True
          (w\<lparr>bookings := filter (\<lambda>b. stripe_payment_intent_id b \<noteq> session) (bookings w)\<rparr>)"
      by (simp add: webhook_delivers[OF d] ok one single_def)
    have "booking \<in> set (filter (\<lambda>b. stripe_payment_intent_id b = session) (bookings w))"
      by (simp add: one)
    then have "stripe_payment_intent_id booking = session" by simp
    then show ?thesis
      by (simp add: w' update_is_available_done[OF ok(3)])
  qed
  show ?thesis using completed expired by blast
qed

theorem notifications_ignore_booking_status_witness:
  "bookings (snd (webhook (demo_env ''x'' [])
        \<lparr>stripe_signature = Some ''valid'', raw_body = ''cs_1''\<rparr>
        (demo_world\<lparr>available_slots := [demo_slot False], bookings := [demo_booking Confirmed]\<rparr>)))
     = [demo_booking Confirmed]
   \<and> available_slots (snd (webhook (demo_env ''x'' [])
        \<lparr>stripe_signature = Some ''valid'', raw_body = ''cs_1''\<rparr>
        (demo_world\<lparr>available_slots := [demo_slot False], bookings := [demo_booking Confirmed]\<rparr>)))
     = [demo_slot False]
   \<and> bookings (snd (webhook (demo_env ''x'' [])
        \<lparr>stripe_signature = Some ''valid'', raw_body = ''expired:cs_1''\<rparr>
        (demo_world\<lparr>available_slots := [demo_slot False], bookings := [demo_booking Pending]\<rparr>)))
     = []
   \<and> available_slots (snd (webhook (demo_env ''x'' [])
        \<lparr>stripe_signature = Some ''valid'', raw_body = ''expired:cs_1''\<rparr>
        (demo_world\<lparr>available_slots := [demo_slot False], bookings := [demo_booking Pending]\<rparr>)))
     = [demo_slot True]"
proof -
  let ?e = "demo_env ''x'' []"
  let ?rc = "\<lparr>stripe_signature = Some ''valid'', raw_body = ''cs_1''\<rparr>"
  let ?rx = "\<lparr>stripe_signature = Some ''valid'', raw_body = ''expired:cs_1''\<rparr>"
  let ?wc = "demo_world\<lparr>available_slots := [demo_slot False], bookings := [demo_booking Confirmed]\<rparr>"
  let ?wp = "demo_world\<lparr>available_slots := [demo_slot False], bookings := [demo_booking Pending]\<rparr>"
  have dc: "delivers ?e ?rc (CheckoutSessionCompleted ''cs_1'')" by code_simp
  have dx: "delivers ?e ?rx (CheckoutSessionExpired ''cs_1'')" by code_simp
  have u: "db_fails ?e UpdateBooking = None" "db_fails ?e SelectBooking = None"
    "db_fails ?e DeleteBooking = None" "db_fails ?e UpdateSlot = None"
    by (simp_all add: demo_env_def)
  have f: "filter (\<lambda>b. stripe_payment_intent_id b = ''cs_1'') (bookings ?wp) = [demo_booking Pending]"
    by (simp add: demo_booking_def)
  from notifications_ignore_booking_status[where env = ?e and req = ?rc and session = "''cs_1''"
      and w = ?wc] dc u
  have 1: "bookings (snd (webhook ?e ?rc ?wc)) = [demo_booking Confirmed]"
    and 2: "available_slots (snd (webhook ?e ?rc ?wc)) = [demo_slot False]"
    by (simp_all add: demo_booking_def)
  from notifications_ignore_booking_status[where env = ?e and req = ?rx and session = "''cs_1''"
      and w = ?wp and booking = "demo_booking Pending"] dx u f
  have 3: "bookings (snd (webhook ?e ?rx ?wp)) = []"
    and 4: "available_slots (snd (webhook ?e ?rx ?wp)) = [demo_slot True]"
    by (simp_all add: demo_booking_def demo_slot_def)
  from 1 2 3 4 show ?thesis by blast
qed

text \<open>
  C6 as stated fails: an expiry notification for the reference of a confirmed booking
  deletes the booking and releases its slot, and a completion notification for the
  reference of a cancelled booking makes it confirmed.
\<close>

theorem expiry_deletes_confirmed_booking:
  "delivers (demo_env ''x'' []) \<lparr>stripe_signature = Some ''valid'', raw_body = ''expired:cs_1''\<rparr>
      (CheckoutSessionExpired ''cs_1'')
   \<and> status (demo_booking Confirmed) = Confirmed
   \<and> stripe_payment_intent_id (demo_booking Confirmed) = ''cs_1''
   \<and> webhook (demo_env ''x'' []) \<lparr>stripe_signature = Some ''valid'', raw_body = ''expired:cs_1''\<rparr>
        (demo_world\<lparr>available_slots := [demo_slot False], bookings := [demo_booking Confirmed]\<rparr>)
     = (Response 200 Received,
        demo_world\<lparr>available_slots := [demo_slot True], bookings := []\<rparr>)
   \<and> delivers (demo_env ''x'' []) \<lparr>stripe_signature = Some ''valid'', raw_body = ''cs_1''\<rparr>
      (CheckoutSessionCompleted ''cs_1'')
   \<and> webhook (demo_env ''x'' []) \<lparr>stripe_signature = Some ''valid'', raw_body = ''cs_1''\<rparr>
        (demo_world\<lparr>available_slots := [demo_slot True], bookings := [demo_booking Cancelled]\<rparr>)
     = (Response 200 Received,
        demo_world\<lparr>available_slots := [demo_slot True], bookings := [demo_booking Confirmed]\<rparr>)"
  by code_simp


section \<open>Properties of generating a range again\<close>

lemma keyOf_update [simp]:
  "keyOf (r\<lparr>end_time := e, base_price_cents := p\<rparr>) = keyOf r"
  by (simp add: keyOf_def)

lemma keyOf_extend [simp]: "keyOf (slot_payload.extend p m) = keyOf p"
  by (simp add: keyOf_def slot_payload.defs)

lemma upsertRow_keys:
  "map keyOf (fst (upsertRow (rows, fresh) p)) =
     (if keyOf p \<in> set (map keyOf rows) then map keyOf rows else map keyOf rows @ [keyOf p])"
  by (simp add: upsertRow_def comp_def cong: map_cong)

lemma upsertRow_distinct:
  "distinct (map keyOf rows) \<Longrightarrow> distinct (map keyOf (fst (upsertRow (rows, fresh) p)))"
  by (simp only: upsertRow_keys split: if_splits) simp

lemma upsertRow_length: "length rows \<le> length (fst (upsertRow (rows, fresh) p))"
  by (simp add: upsertRow_def)

lemma upsertRow_endsAfter90:
  assumes "list_all endsAfter90 rows" "endsAfter90 p"
  shows "list_all endsAfter90 (fst (upsertRow (rows, fresh) p))"
  using assms
  by (auto simp: upsertRow_def list_all_iff endsAfter90_def keyOf_def slot_payload.defs)

lemma price_refreshed_refl: "price_refreshed r r"
  by (simp add: price_refreshed_def)

lemma price_refreshed_set: "price_refreshed r (r\<lparr>base_price_cents := p\<rparr>)"
  by (simp add: price_refreshed_def)

lemma price_refreshed_trans:
  "price_refreshed a b \<Longrightarrow> price_refreshed b c \<Longrightarrow> price_refreshed a c"
  by (cases a, cases b, cases c) (simp add: price_refreshed_def)

lemma upsertRow_nth:
  assumes "list_all endsAfter90 rows" "endsAfter90 p" "i < length rows"
  shows "price_refreshed (rows ! i) (fst (upsertRow (rows, fresh) p) ! i)"
proof -
  have r: "endsAfter90 (rows ! i)" using assms(1,3) by (simp add: list_all_length)
  show ?thesis
  proof (cases "keyOf p \<in> set (map keyOf rows)")
    case True
    show ?thesis
    proof (cases "keyOf (rows ! i) = keyOf p")
      case k: True
      then have "start_time (rows ! i) = start_time p" by (simp add: keyOf_def)
      with r assms(2) have e: "end_time p = end_time (rows ! i)" by (simp add: endsAfter90_def)
      have "fst (upsertRow (rows, fresh) p) ! i =
          (rows ! i)\<lparr>end_time := end_time (rows ! i), base_price_cents := base_price_cents p\<rparr>"
        using True k assms(3) by (simp add: upsertRow_def e)
      then show ?thesis by (simp add: price_refreshed_set)
    next
      case False
      then show ?thesis using True assms(3) by (simp add: upsertRow_def price_refreshed_refl)
    qed
  next
    case False
    then show ?thesis using assms(3) by (simp add: upsertRow_def nth_append price_refreshed_refl)
  qed
qed

lemma foldl_upsertRow:
  assumes "distinct (map keyOf rows)" "list_all endsAfter90 rows" "list_all endsAfter90 slots"
  shows "distinct (map keyOf (fst (foldl upsertRow (rows, fresh) slots)))
    \<and> list_all endsAfter90 (fst (foldl upsertRow (rows, fresh) slots))
    \<and> length rows \<le> length (fst (foldl upsertRow (rows, fresh) slots))
    \<and> (\<forall>i < length rows.
          price_refreshed (rows ! i) (fst (foldl upsertRow (rows, fresh) slots) ! i))"
  using assms
proof (induction slots arbitrary: rows fresh)
  case Nil
  then show ?case by (simp add: price_refreshed_refl)
next
  case (Cons p slots)
  obtain rows1 fresh1 where s: "upsertRow (rows, fresh) p = (rows1, fresh1)"
    by (cases "upsertRow (rows, fresh) p")
  have p: "endsAfter90 p" and ps: "list_all endsAfter90 slots" using Cons.prems(3) by simp_all
  have d1: "distinct (map keyOf rows1)"
    using upsertRow_distinct[OF Cons.prems(1), of fresh p] s by simp
  have e1: "list_all endsAfter90 rows1"
    using upsertRow_endsAfter90[OF Cons.prems(2) p, of fresh] s by simp
  have l1: "length rows \<le> length rows1"
    using upsertRow_length[of rows fresh p] s by simp
  have n1: "price_refreshed (rows ! i) (rows1 ! i)" if "i < length rows" for i
    using upsertRow_nth[OF Cons.prems(2) p that, of fresh] s by simp
  note IH = Cons.IH[OF d1 e1 ps, of fresh1]
  let ?final = "fst (foldl upsertRow (rows1, fresh1) slots)"
  have nth: "price_refreshed (rows ! i) (?final ! i)" if "i < length rows" for i
  proof -
    have "i < length rows1" using that l1 by simp
    with IH have "price_refreshed (rows1 ! i) (?final ! i)" by blast
    with n1[OF that] show ?thesis by (rule price_refreshed_trans)
  qed
  show ?case
    using IH l1 nth by (simp add: s)
qed


lemma generated_endsAfter90:
  assumes "0 \<le> offset_minutes cfg" "generateSlotsForCourt tz c cfg s e = Some rows" "r \<in> set rows"
  shows "endsAfter90 r"
proof -
  from assms(2,3) obtain t u where u: "u \<in> set (dayTicks (offset_minutes cfg))"
    and r: "r = slotAt c (toISODate t) (if getDay tz t = 0 \<or> getDay tz t = 6 then 65 else 40) u"
    by (rule generated_row)
  from dayTicks_bounds[OF u] assms(1) have "0 \<le> u" "u < 6000" by simp_all
  then show ?thesis
    by (simp add: endsAfter90_def r slotAt_def Let_def timeMinutes_formatTime)
qed

lemma courtLoop_endsAfter90:
  assumes "list_all (\<lambda>(courtName, config). 0 \<le> offset_minutes config \<and> offset_minutes config < 90)
      courts"
    and "courtLoop tz courts s e = Some slots"
  shows "list_all endsAfter90 slots"
  using assms
proof (induction courts arbitrary: slots)
  case Nil
  then show ?case by simp
next
  case (Cons x courts)
  obtain c cfg where x: "x = (c, cfg)" by (cases x)
  from Cons.prems(2)[unfolded x] obtain courtSlots rest where
    g: "generateSlotsForCourt tz c cfg s e = Some courtSlots"
    and l: "courtLoop tz courts s e = Some rest" and sl: "slots = courtSlots @ rest"
    by (rule courtLoop_Cons)
  have off: "0 \<le> offset_minutes cfg" using Cons.prems(1) x by simp
  have "list_all endsAfter90 courtSlots"
    using generated_endsAfter90[OF off g] by (simp add: list_all_iff)
  moreover have "list_all endsAfter90 rest" using Cons.IH[OF _ l] Cons.prems(1) by simp
  ultimately show ?case by (simp add: sl)
qed

lemma upsertRow_identity:
  assumes "i < length rows"
  shows "id_slot (fst (upsertRow (rows, fresh) p) ! i) = id_slot (rows ! i)
    \<and> keyOf (fst (upsertRow (rows, fresh) p) ! i) = keyOf (rows ! i)
    \<and> is_available (fst (upsertRow (rows, fresh) p) ! i) = is_available (rows ! i)
    \<and> current_price_cents (fst (upsertRow (rows, fresh) p) ! i) = current_price_cents (rows ! i)"
  using assms by (simp add: upsertRow_def nth_append)

lemma foldl_upsertRow_identity:
  assumes "distinct (map keyOf rows)"
  shows "distinct (map keyOf (fst (foldl upsertRow (rows, fresh) slots)))
    \<and> length rows \<le> length (fst (foldl upsertRow (rows, fresh) slots))
    \<and> (\<forall>i < length rows.
          id_slot (fst (foldl upsertRow (rows, fresh) slots) ! i) = id_slot (rows ! i)
          \<and> keyOf (fst (foldl upsertRow (rows, fresh) slots) ! i) = keyOf (rows ! i)
          \<and> is_available (fst (foldl upsertRow (rows, fresh) slots) ! i) = is_available (rows ! i)
          \<and> current_price_cents (fst (foldl upsertRow (rows, fresh) slots) ! i)
              = current_price_cents (rows ! i))"
  using assms
proof (induction slots arbitrary: rows fresh)
  case Nil
  then show ?case by simp
next
  case (Cons p slots)
  obtain rows1 fresh1 where s: "upsertRow (rows, fresh) p = (rows1, fresh1)"
    by (cases "upsertRow (rows, fresh) p")
  have d1: "distinct (map keyOf rows1)"
    using upsertRow_distinct[OF Cons.prems, of fresh p] s by simp
  have l1: "length rows \<le> length rows1"
    using upsertRow_length[of rows fresh p] s by simp
  have n1: "id_slot (rows1 ! i) = id_slot (rows ! i) \<and> keyOf (rows1 ! i) = keyOf (rows ! i)
      \<and> is_available (rows1 ! i) = is_available (rows ! i)
      \<and> current_price_cents (rows1 ! i) = current_price_cents (rows ! i)"
    if "i < length rows" for i
    using upsertRow_identity[OF that, of fresh p] s by simp
  note IH = Cons.IH[OF d1, of fresh1]
  show ?case
    using IH l1 n1 by (auto simp: s)
qed

lemma generate_POST_cases:
  assumes "generate_POST env startDate endDate w = Some (resp, w')"
  obtains (refused) slots where
      "courtLoop (server_tz env)
         (case db_fails env SelectCourts of
            Some _ \<Rightarrow> []
          | None \<Rightarrow> (case courts_rule w of None \<Rightarrow> [] | Some cs \<Rightarrow> cs)) startDate endDate
       = Some slots"
      "db_fails env UpsertSlots \<noteq> None \<or> \<not> distinct (map keyOf slots)"
      "resp = Response 500 (ErrorBody ''An error occurred'')" "w' = w"
  | (written) slots where
      "courtLoop (server_tz env)
         (case db_fails env SelectCourts of
            Some _ \<Rightarrow> []
          | None \<Rightarrow> (case courts_rule w of None \<Rightarrow> [] | Some cs \<Rightarrow> cs)) startDate endDate
       = Some slots"
      "db_fails env UpsertSlots = None" "distinct (map keyOf slots)"
      "resp = Response 200 (SlotsCreated (length slots))"
      "w' = w\<lparr>available_slots := fst (foldl upsertRow (available_slots w, next_id w) slots),
               next_id := snd (foldl upsertRow (available_slots w, next_id w) slots)\<rparr>"
  using assms
  by (auto simp: generate_POST_def upsert_def Let_def split_beta
      split: sum.splits option.splits if_splits)

lemma generate_POST_frame:
  assumes "distinct (map keyOf (available_slots w))"
    and "generate_POST env startDate endDate w = Some (resp, w')"
  shows "distinct (map keyOf (available_slots w'))
    \<and> length (available_slots w) \<le> length (available_slots w')
    \<and> (\<forall>i < length (available_slots w).
          id_slot (available_slots w' ! i) = id_slot (available_slots w ! i)
          \<and> keyOf (available_slots w' ! i) = keyOf (available_slots w ! i)
          \<and> is_available (available_slots w' ! i) = is_available (available_slots w ! i)
          \<and> current_price_cents (available_slots w' ! i)
              = current_price_cents (available_slots w ! i))
    \<and> bookings w' = bookings w
    \<and> (list_all endsAfter90 (available_slots w) \<and> offsets_in_range w \<longrightarrow>
         (\<forall>i < length (available_slots w).
            price_refreshed (available_slots w ! i) (available_slots w' ! i)))"
  using assms(2)
proof (cases rule: generate_POST_cases)
  case (refused slots)
  then show ?thesis using assms(1) by (simp add: price_refreshed_refl)
next
  case (written slots)
  let ?courts = "case db_fails env SelectCourts of
                      Some _ \<Rightarrow> []
                    | None \<Rightarrow> (case courts_rule w of None \<Rightarrow> [] | Some cs \<Rightarrow> cs)"
  let ?final = "foldl upsertRow (available_slots w, next_id w) slots"
  note I = foldl_upsertRow_identity[OF assms(1), of "next_id w" slots]
  have P: "\<forall>i < length (available_slots w).
      price_refreshed (available_slots w ! i) (fst ?final ! i)"
    if e: "list_all endsAfter90 (available_slots w)" and o: "offsets_in_range w"
  proof -
    have "list_all (\<lambda>(courtName, config). 0 \<le> offset_minutes config \<and> offset_minutes config < 90)
        ?courts"
      using o by (simp add: offsets_in_range_def split: option.splits)
    then have "list_all endsAfter90 slots" using written(1) by (rule courtLoop_endsAfter90)
    from foldl_upsertRow[OF assms(1) e this, of "next_id w"] show ?thesis by blast
  qed
  show ?thesis using I P by (simp add: written(5))
qed

lemma upsertRow_stored:
  assumes "distinct (map keyOf rows)" "stored_with p rows"
  shows "upsertRow (rows, fresh) p = (rows, fresh)"
proof -
  from assms(2) obtain r where r: "r \<in> set rows" "keyOf r = keyOf p" "end_time r = end_time p"
    "base_price_cents r = base_price_cents p"
    by (auto simp: stored_with_def list_ex_iff)
  have "r' = r" if "r' \<in> set rows" "keyOf r' = keyOf p" for r'
    using assms(1) that r(1,2) by (metis distinct_map inj_onD)
  then have "map (\<lambda>r. if keyOf r = keyOf p
                       then r\<lparr>end_time := end_time p, base_price_cents := base_price_cents p\<rparr>
                       else r) rows = map (\<lambda>r. r) rows"
    using r(3,4) by (intro map_cong) auto
  moreover have "keyOf p \<in> set (map keyOf rows)" using r(1,2) by force
  ultimately show ?thesis by (simp add: upsertRow_def)
qed

lemma stored_after_upsertRow: "stored_with p (fst (upsertRow (rows, fresh) p))"
proof (cases "keyOf p \<in> set (map keyOf rows)")
  case True
  let ?f = "\<lambda>r. if keyOf r = keyOf p
                 then r\<lparr>end_time := end_time p, base_price_cents := base_price_cents p\<rparr>
                 else r"
  from True obtain r where r: "r \<in> set rows" "keyOf r = keyOf p" by auto
  have "?f r \<in> ?f ` set rows" using r(1) by (rule imageI)
  then have "?f r \<in> set (map ?f rows)" by (simp only: set_map)
  moreover have "keyOf (?f r) = keyOf p \<and> end_time (?f r) = end_time p
      \<and> base_price_cents (?f r) = base_price_cents p"
    using r(2) by simp
  ultimately have "stored_with p (map ?f rows)"
    unfolding stored_with_def list_ex_iff by blast
  then show ?thesis using True by (simp add: upsertRow_def)
next
  case False
  then show ?thesis
    by (simp add: upsertRow_def stored_with_def keyOf_def slot_payload.defs)
qed

lemma stored_kept_upsertRow:
  assumes "keyOf q \<noteq> keyOf p" "stored_with p rows"
  shows "stored_with p (fst (upsertRow (rows, fresh) q))"
proof -
  from assms(2) obtain r where r: "r \<in> set rows" "keyOf r = keyOf p" "end_time r = end_time p"
    "base_price_cents r = base_price_cents p"
    by (auto simp: stored_with_def list_ex_iff)
  show ?thesis
    using r assms(1)
    by (auto simp: upsertRow_def stored_with_def list_ex_iff intro!: bexI[of _ r])
qed

lemma stored_kept_foldl:
  assumes "keyOf p \<notin> set (map keyOf slots)" "stored_with p rows"
  shows "stored_with p (fst (foldl upsertRow (rows, fresh) slots))"
  using assms
proof (induction slots arbitrary: rows fresh)
  case Nil
  then show ?case by simp
next
  case (Cons q slots)
  obtain rows1 fresh1 where s: "upsertRow (rows, fresh) q = (rows1, fresh1)"
    by (cases "upsertRow (rows, fresh) q")
  have "keyOf q \<noteq> keyOf p" using Cons.prems(1) by auto
  from stored_kept_upsertRow[OF this Cons.prems(2), of fresh] s
  have "stored_with p rows1" by simp
  moreover have "keyOf p \<notin> set (map keyOf slots)" using Cons.prems(1) by simp
  ultimately show ?case using Cons.IH by (simp add: s)
qed

lemma all_stored_foldl:
  assumes "distinct (map keyOf slots)"
  shows "\<forall>p \<in> set slots. stored_with p (fst (foldl upsertRow (rows, fresh) slots))"
  using assms
proof (induction slots arbitrary: rows fresh)
  case Nil
  then show ?case by simp
next
  case (Cons q slots)
  obtain rows1 fresh1 where s: "upsertRow (rows, fresh) q = (rows1, fresh1)"
    by (cases "upsertRow (rows, fresh) q")
  have q: "stored_with q rows1" using stored_after_upsertRow[of q rows fresh] s by simp
  have "keyOf q \<notin> set (map keyOf slots)" using Cons.prems by simp
  from stored_kept_foldl[OF this q, of fresh1]
  have 1: "stored_with q (fst (foldl upsertRow (rows1, fresh1) slots))" .
  have 2: "\<forall>p \<in> set slots. stored_with p (fst (foldl upsertRow (rows1, fresh1) slots))"
    using Cons by simp
  show ?case using 1 2 by (simp add: s)
qed

lemma foldl_all_stored:
  assumes "distinct (map keyOf rows)" "\<forall>p \<in> set slots. stored_with p rows"
  shows "foldl upsertRow (rows, fresh) slots = (rows, fresh)"
  using assms(2)
  by (induction slots) (simp_all add: upsertRow_stored[OF assms(1)])

lemma foldl_upsertRow_again:
  assumes "distinct (map keyOf rows)" "distinct (map keyOf slots)"
  shows "foldl upsertRow (foldl upsertRow (rows, fresh) slots) slots
       = foldl upsertRow (rows, fresh) slots"
proof -
  obtain rows1 fresh1 where s: "foldl upsertRow (rows, fresh) slots = (rows1, fresh1)"
    by (cases "foldl upsertRow (rows, fresh) slots")
  have d: "distinct (map keyOf rows1)"
    using foldl_upsertRow_identity[OF assms(1), of fresh slots] s by simp
  have a: "\<forall>p \<in> set slots. stored_with p rows1"
    using all_stored_foldl[OF assms(2), of rows fresh] s by simp
  show ?thesis unfolding s by (rule foldl_all_stored[OF d a])
qed

lemma generate_POST_again:
  assumes "distinct (map keyOf (available_slots w))"
    and "generate_POST env startDate endDate w = Some (resp, w')"
  shows "generate_POST env startDate endDate w' = Some (resp, w')"
  using assms(2)
proof (cases rule: generate_POST_cases)
  case (refused slots)
  then show ?thesis using assms(2) by simp
next
  case (written slots)
  let ?courts = "\<lambda>w. case db_fails env SelectCourts of
                      Some _ \<Rightarrow> []
                    | None \<Rightarrow> (case courts_rule w of None \<Rightarrow> [] | Some cs \<Rightarrow> cs)"
  let ?final = "foldl upsertRow (available_slots w, next_id w) slots"
  have "courts_rule w' = courts_rule w" using written(5) by simp
  then have c: "?courts w' = ?courts w" by (cases "db_fails env SelectCourts") simp_all
  have e: "(available_slots w', next_id w') = ?final" by (simp add: written(5))
  have "foldl upsertRow (available_slots w', next_id w') slots = foldl upsertRow ?final slots"
    by (simp only: e)
  also have "\<dots> = ?final" by (rule foldl_upsertRow_again[OF assms(1) written(3)])
  finally have f: "foldl upsertRow (available_slots w', next_id w') slots = ?final" .
  have "upsert env slots w' = Inr (w'\<lparr>available_slots := fst ?final, next_id := snd ?final\<rparr>)"
    by (simp add: upsert_def written(2,3) f split_beta)
  also have "w'\<lparr>available_slots := fst ?final, next_id := snd ?final\<rparr> = w'"
    by (simp add: written(5))
  finally have u: "upsert env slots w' = Inr w'" .
  have "generate_POST env startDate endDate w' =
      Some (case upsert env slots w' of
              Inl message \<Rightarrow> (Response 500 (ErrorBody ''An error occurred''), w')
            | Inr w'' \<Rightarrow> (Response 200 (SlotsCreated (length slots)), w''))"
    by (simp add: generate_POST_def Let_def c written(1))
  then show ?thesis by (simp add: u written(4))
qed

lemma courtLoop_returns:
  assumes "advances tz"
  shows "\<exists>slots. courtLoop tz courts s e = Some slots"
proof (induction courts)
  case Nil
  then show ?case by simp
next
  case (Cons x courts)
  obtain c cfg where x: "x = (c, cfg)" by (cases x)
  from generated_returns[OF assms] obtain rows where
    "generateSlotsForCourt tz c cfg s e = Some rows" by blast
  moreover from Cons.IH obtain rest where "courtLoop tz courts s e = Some rest" by blast
  ultimately show ?case by (simp add: x)
qed

lemma generate_POST_returns:
  assumes "advances (server_tz env)"
  shows "\<exists>resp w'. generate_POST env startDate endDate w = Some (resp, w')"
proof -
  let ?courts = "case db_fails env SelectCourts of
                      Some _ \<Rightarrow> []
                    | None \<Rightarrow> (case courts_rule w of None \<Rightarrow> [] | Some cs \<Rightarrow> cs)"
  from courtLoop_returns[OF assms] obtain slots where
    "courtLoop (server_tz env) ?courts startDate endDate = Some slots" by blast
  then have "generate_POST env startDate endDate w \<noteq> None"
    by (simp add: generate_POST_def Let_def)
  then obtain r where "generate_POST env startDate endDate w = Some r" by blast
  then show ?thesis by (cases r) simp
qed

text \<open>
  C8. Let no two stored slots share the key (court, date, start time), as the table's
  uniqueness constraint has it. On a server whose time zone advances a generation run
  answers. Whatever a generation run answers, afterwards still no two stored slots share
  a key; every slot stored before is still there at its place with its primary key, its
  key columns, its availability and its current price; and the bookings, which refer to
  slots by primary key, are untouched. When moreover the stored slots end 90 minutes
  after they start, as generated slots do, and the court offsets are in range, a slot
  stored before differs from what it was in \<^verbatim>\<open>base_price_cents\<close> at most. Running
  the same generation once more gives the same answer and changes nothing.
\<close>

theorem regeneration_keeps_stored_slots:
  assumes "distinct (map keyOf (available_slots w))"
  shows "(advances (server_tz env) \<longrightarrow>
            (\<exists>resp w'. generate_POST env startDate endDate w = Some (resp, w')))
    \<and> (\<forall>resp w'. generate_POST env startDate endDate w = Some (resp, w') \<longrightarrow>
          distinct (map keyOf (available_slots w'))
        \<and> length (available_slots w) \<le> length (available_slots w')
        \<and> (\<forall>i < length (available_slots w).
              id_slot (available_slots w' ! i) = id_slot (available_slots w ! i)
              \<and> keyOf (available_slots w' ! i) = keyOf (available_slots w ! i)
              \<and> is_available (available_slots w' ! i) = is_available (available_slots w ! i)
              \<and> current_price_cents (available_slots w' ! i)
                  = current_price_cents (available_slots w ! i))
        \<and> bookings w' = bookings w
        \<and> (list_all endsAfter90 (available_slots w) \<and> offsets_in_range w \<longrightarrow>
             (\<forall>i < length (available_slots w).
                price_refreshed (available_slots w ! i) (available_slots w' ! i)))
        \<and> generate_POST env startDate endDate w' = Some (resp, w'))"
proof (rule conjI; intro allI impI)
  assume "advances (server_tz env)"
  then show "\<exists>resp w'. generate_POST env startDate endDate w = Some (resp, w')"
    by (rule generate_POST_returns)
next
  fix resp w'
  assume g: "generate_POST env startDate endDate w = Some (resp, w')"
  show "distinct (map keyOf (available_slots w'))
        \<and> length (available_slots w) \<le> length (available_slots w')
        \<and> (\<forall>i < length (available_slots w).
              id_slot (available_slots w' ! i) = id_slot (available_slots w ! i)
              \<and> keyOf (available_slots w' ! i) = keyOf (available_slots w ! i)
              \<and> is_available (available_slots w' ! i) = is_available (available_slots w ! i)
              \<and> current_price_cents (available_slots w' ! i)
                  = current_price_cents (available_slots w ! i))
        \<and> bookings w' = bookings w
        \<and> (list_all endsAfter90 (available_slots w) \<and> offsets_in_range w \<longrightarrow>
             (\<forall>i < length (available_slots w).
                price_refreshed (available_slots w ! i) (available_slots w' ! i)))
        \<and> generate_POST env startDate endDate w' = Some (resp, w')"
    using generate_POST_frame[OF assms g] generate_POST_again[OF assms g] by blast
qed

theorem regeneration_keeps_stored_slots_witness:
  "advances (server_tz (demo_env ''x'' []))
   \<and> map_option fst (generate_POST (demo_env ''x'' []) 20089 20089
      (demo_world\<lparr>available_slots := [demo_slot False], bookings := [demo_booking Confirmed]\<rparr>))
     = Some (Response 200 (SlotsCreated 11))
   \<and> length (available_slots (snd (the (generate_POST (demo_env ''x'' []) 20089 20089
      (demo_world\<lparr>available_slots := [demo_slot False], bookings := [demo_booking Confirmed]\<rparr>)))))
     = 11
   \<and> id_slot (available_slots (snd (the (generate_POST (demo_env ''x'' []) 20089 20089
      (demo_world\<lparr>available_slots := [demo_slot False], bookings := [demo_booking Confirmed]\<rparr>))))
        ! 0) = 1
   \<and> is_available (available_slots (snd (the (generate_POST (demo_env ''x'' []) 20089 20089
      (demo_world\<lparr>available_slots := [demo_slot False], bookings := [demo_booking Confirmed]\<rparr>))))
        ! 0) = False
   \<and> price_refreshed (demo_slot False)
       (available_slots (snd (the (generate_POST (demo_env ''x'' []) 20089 20089
      (demo_world\<lparr>available_slots := [demo_slot False], bookings := [demo_booking Confirmed]\<rparr>))))
        ! 0)
   \<and> bookings (snd (the (generate_POST (demo_env ''x'' []) 20089 20089
      (demo_world\<lparr>available_slots := [demo_slot False], bookings := [demo_booking Confirmed]\<rparr>))))
     = [demo_booking Confirmed]"
proof -
  let ?w = "demo_world\<lparr>available_slots := [demo_slot False], bookings := [demo_booking Confirmed]\<rparr>"
  let ?g = "generate_POST (demo_env ''x'' []) 20089 20089 ?w"
  have z: "advances (server_tz (demo_env ''x'' []))"
    using advances_tallinn by (simp add: demo_env_def)
  have d: "distinct (map keyOf (available_slots ?w))" by simp
  have s: "list_all endsAfter90 (available_slots ?w)" by code_simp
  have o: "offsets_in_range ?w" by code_simp
  have g: "?g = Some (fst (the ?g), snd (the ?g))" by code_simp
  have r: "map_option fst ?g = Some (Response 200 (SlotsCreated 11))" by code_simp
  have l: "length (available_slots (snd (the ?g))) = 11" by code_simp
  have a: "available_slots ?w ! 0 = demo_slot False" "bookings ?w = [demo_booking Confirmed]"
    "0 < length (available_slots ?w)"
    by simp_all
  have i: "id_slot (demo_slot False) = 1" "is_available (demo_slot False) = False"
    by (simp_all add: demo_slot_def)
  from regeneration_keeps_stored_slots[OF d, where env = "demo_env ''x'' []"
      and startDate = 20089 and endDate = 20089] g s o
  have "id_slot (available_slots (snd (the ?g)) ! 0) = id_slot (available_slots ?w ! 0)
      \<and> is_available (available_slots (snd (the ?g)) ! 0) = is_available (available_slots ?w ! 0)
      \<and> price_refreshed (available_slots ?w ! 0) (available_slots (snd (the ?g)) ! 0)
      \<and> bookings (snd (the ?g)) = bookings ?w"
    using a(3) by blast
  with z r l show ?thesis by (simp only: a i simp_thms)
qed

end
